theory Spec2Isabelle
  imports Main "HOL-Library.Word"
begin

section \<open>NebulaVault: a confidential staking vault over two ERC7984 tokens\<close>

text \<open>
  The contract \<^verbatim>\<open>NebulaVault\<close> keeps, for two assets, an encrypted stake per account and an
  encrypted total. Its functions are embedded below one by one, with the state of the
  contract passed explicitly. What the contract calls but does not define (the encrypted
  integer library \<^verbatim>\<open>FHE\<close>, \<^verbatim>\<open>FHESafeMath\<close>, the token behind \<^verbatim>\<open>IERC7984\<close>) is modelled
  from the specification; the behaviour of the token and the input verifier are parameters
  of every function.
\<close>

subsection \<open>Data\<close>

type_synonym address = "160 word"
type_synonym uint64 = "64 word"
type_synonym bytes = "8 word list"
type_synonym externalEuint64 = "256 word"

text \<open>
  The input verifier: the plaintext of the external handle a user submits with a proof, when
  the proof is valid for that handle and that user.
\<close>

type_synonym verifier = "address \<Rightarrow> externalEuint64 \<Rightarrow> bytes \<Rightarrow> uint64 option"

datatype Asset = METH | MUSDT

text \<open>
  Modelled from the spec: the type \<^verbatim>\<open>euint64\<close> of the FHE library (spec 2 and 3, the
  EncryptedInt primitive: an opaque ciphertext with add, subtract, select and comparison,
  and a reserved all-zero handle meaning "never written"). A handle is determined by the
  operation and the operands that produced it (spec 4.1: no randomness, purely functional
  given inputs), so a handle is the term of its computation: \<open>Uninitialized\<close> is the
  all-zero handle, \<open>Ciphertext h v\<close> a ciphertext made outside the vault (a verified input
  or a value returned by a token) with handle \<open>h\<close> and plaintext \<open>v\<close>.
\<close>

datatype euint64 =
    Uninitialized
  | Ciphertext "256 word" uint64
  | Trivial uint64
  | Add euint64 euint64
  | Sub euint64 euint64
  | Select ebool euint64 euint64
and ebool =
    Ge euint64 euint64

text \<open>
  Decryption of a handle: 64-bit unsigned arithmetic, wrapping. The all-zero handle reads
  as 0 (\<^verbatim>\<open>decryptBalance\<close> of the test suite returns 0 for \<^verbatim>\<open>ethers.ZeroHash\<close>).
\<close>

fun decrypt :: "euint64 \<Rightarrow> uint64" and decryptBool :: "ebool \<Rightarrow> bool" where
  "decrypt Uninitialized = 0"
| "decrypt (Ciphertext h v) = v"
| "decrypt (Trivial v) = v"
| "decrypt (Add a b) = decrypt a + decrypt b"
| "decrypt (Sub a b) = decrypt a - decrypt b"
| "decrypt (Select c a b) = (if decryptBool c then decrypt a else decrypt b)"
| "decryptBool (Ge a b) = (decrypt b \<le> decrypt a)"

text \<open>
  The errors with which a token reverts. They are the token's own; the one named is the
  error of a transfer from an account whose balance has never been written.
\<close>

datatype token_error =
    ERC7984ZeroBalance address
  | TokenFailure nat

text \<open>
  The errors of the vault, the error of the input verifier, and a revert of the token, which
  reverts the call of the vault that called it.
\<close>

datatype error =
    NebulaVaultOperatorMissing
  | NebulaVaultInvalidToken
  | InvalidProof
  | TokenReverted token_error

datatype event =
    Staked address Asset euint64
  | Unstaked address Asset euint64

text \<open>
  Modelled from the spec: the interface \<^verbatim>\<open>IERC7984\<close> of the token (spec 6:
  \<^verbatim>\<open>isOperator(owner, spender)\<close>, \<^verbatim>\<open>confidentialTransferFrom(from, to, amount)\<close> and
  \<^verbatim>\<open>confidentialTransfer(to, amount)\<close>, each transfer returning the amount actually
  moved). The token is another contract: \<open>'ts\<close> is its state, and the first address of
  a transfer is the contract that calls it. A call to the token completes or fails
  atomically before the vault goes on (spec 5): it returns the amount and the new state of
  the token, or reverts with an error of the token, and does not call back into the vault.
\<close>

record 'ts IERC7984 =
  isOperator :: "'ts \<Rightarrow> address \<Rightarrow> address \<Rightarrow> bool"
  confidentialTransferFrom ::
    "'ts \<Rightarrow> address \<Rightarrow> address \<Rightarrow> address \<Rightarrow> euint64 \<Rightarrow> token_error + euint64 \<times> 'ts"
  confidentialTransfer ::
    "'ts \<Rightarrow> address \<Rightarrow> address \<Rightarrow> euint64 \<Rightarrow> token_error + euint64 \<times> 'ts"

text \<open>
  The storage of the vault (\<open>methToken\<close> to \<open>totalMusdtStaked\<close>, as declared in the
  contract), its own address, the events it has emitted, the decrypt grants it has issued
  (\<open>acl\<close>: handle and principal), and the state of the token contract at each address.
\<close>

record 'ts world =
  vaultAddress :: address
  methToken :: address
  musdtToken :: address
  methStakes :: "address \<Rightarrow> euint64"
  musdtStakes :: "address \<Rightarrow> euint64"
  totalMethStaked :: euint64
  totalMusdtStaked :: euint64
  acl :: "(euint64 \<times> address) set"
  events :: "event list"
  tokens :: "address \<Rightarrow> 'ts"

subsection \<open>The FHE library\<close>

text \<open>
  Modelled from the spec: the operations of the FHE library that the vault calls (spec 2,
  4.3 and 6). \<open>FHE_fromExternal\<close> is the EncryptedInputVerifier, called for
  the user who sent the transaction.
\<close>

definition FHE_asEuint64 :: "uint64 \<Rightarrow> euint64" where
  "FHE_asEuint64 v = Trivial v"

definition FHE_add :: "euint64 \<Rightarrow> euint64 \<Rightarrow> euint64" where
  "FHE_add a b = Add a b"

definition FHE_sub :: "euint64 \<Rightarrow> euint64 \<Rightarrow> euint64" where
  "FHE_sub a b = Sub a b"

definition FHE_ge :: "euint64 \<Rightarrow> euint64 \<Rightarrow> ebool" where
  "FHE_ge a b = Ge a b"

definition FHE_select :: "ebool \<Rightarrow> euint64 \<Rightarrow> euint64 \<Rightarrow> euint64" where
  "FHE_select c a b = Select c a b"

definition FHE_fromExternal ::
  "verifier \<Rightarrow> address \<Rightarrow> externalEuint64 \<Rightarrow> bytes \<Rightarrow> error + euint64" where
  "FHE_fromExternal V user encryptedAmount inputProof =
     (case V user encryptedAmount inputProof of
        None \<Rightarrow> Inl InvalidProof
      | Some v \<Rightarrow> Inr (Ciphertext encryptedAmount v))"

definition FHE_allow :: "'ts world \<Rightarrow> euint64 \<Rightarrow> address \<Rightarrow> 'ts world" where
  "FHE_allow w value account = w\<lparr>acl := insert (value, account) (acl w)\<rparr>"

definition FHE_allowThis :: "'ts world \<Rightarrow> euint64 \<Rightarrow> 'ts world" where
  "FHE_allowThis w value = FHE_allow w value (vaultAddress w)"

subsection \<open>FHESafeMath\<close>

text \<open>
  Modelled from the spec: \<^verbatim>\<open>FHESafeMath.tryIncrease\<close> (spec 4.1). It computes
  \<open>current + delta\<close>; \<open>ok\<close> says whether the 64-bit sum did not wrap (the encrypted
  overflow check), and \<open>result\<close> is the new value, to be stored unconditionally.
\<close>

definition tryIncrease :: "euint64 \<Rightarrow> euint64 \<Rightarrow> ebool \<times> euint64" where
  "tryIncrease current delta =
     (let result = FHE_add current delta;
          ok = FHE_ge result current
      in (ok, result))"

text \<open>
  Modelled from the spec: \<^verbatim>\<open>FHESafeMath.tryDecrease\<close> (spec 4.1):
  \<open>ok = current >= delta\<close> and \<open>result = select(ok, current - delta, current)\<close>.
\<close>

definition tryDecrease :: "euint64 \<Rightarrow> euint64 \<Rightarrow> ebool \<times> euint64" where
  "tryDecrease current delta =
     (let ok = FHE_ge current delta;
          result = FHE_select ok (FHE_sub current delta) current
      in (ok, result))"

subsection \<open>The contract\<close>

text \<open>
  The storage right after deployment: the two token addresses are set, every mapping
  entry and both totals are the all-zero handle.
\<close>

definition emptyVault ::
  "address \<Rightarrow> address \<Rightarrow> address \<Rightarrow> (address \<Rightarrow> 'ts) \<Rightarrow> 'ts world" where
  "emptyVault self methTokenAddress musdtTokenAddress ts =
     \<lparr> vaultAddress = self,
       methToken = methTokenAddress,
       musdtToken = musdtTokenAddress,
       methStakes = (\<lambda>_. Uninitialized),
       musdtStakes = (\<lambda>_. Uninitialized),
       totalMethStaked = Uninitialized,
       totalMusdtStaked = Uninitialized,
       acl = {},
       events = [],
       tokens = ts \<rparr>"

definition constructor ::
  "address \<Rightarrow> address \<Rightarrow> address \<Rightarrow> (address \<Rightarrow> 'ts) \<Rightarrow> error + 'ts world" where
  "constructor self methTokenAddress musdtTokenAddress ts =
     (if methTokenAddress = 0 \<or> musdtTokenAddress = 0 then Inl NebulaVaultInvalidToken
      else Inr (emptyVault self methTokenAddress musdtTokenAddress ts))"

definition getToken :: "'ts world \<Rightarrow> Asset \<Rightarrow> address" where
  "getToken w asset = (if asset = METH then methToken w else musdtToken w)"

definition getStake :: "'ts world \<Rightarrow> Asset \<Rightarrow> address \<Rightarrow> euint64" where
  "getStake w asset account =
     (if asset = METH then methStakes w account else musdtStakes w account)"

definition getEncryptedStake :: "'ts world \<Rightarrow> address \<Rightarrow> Asset \<Rightarrow> euint64" where
  "getEncryptedStake w account asset = getStake w asset account"

definition getTotalStaked :: "'ts world \<Rightarrow> Asset \<Rightarrow> euint64" where
  "getTotalStaked w asset = (if asset = METH then totalMethStaked w else totalMusdtStaked w)"

definition updateStakeStorage :: "'ts world \<Rightarrow> Asset \<Rightarrow> address \<Rightarrow> euint64 \<Rightarrow> 'ts world" where
  "updateStakeStorage w asset account value =
     (let w1 = FHE_allowThis w value;
          w2 = FHE_allow w1 value account
      in if asset = METH
         then w2\<lparr>methStakes := (methStakes w2)(account := value)\<rparr>
         else w2\<lparr>musdtStakes := (musdtStakes w2)(account := value)\<rparr>)"

definition increaseStake :: "'ts world \<Rightarrow> Asset \<Rightarrow> address \<Rightarrow> euint64 \<Rightarrow> 'ts world" where
  "increaseStake w asset account amount =
     (let current = getStake w asset account;
          updated = snd (tryIncrease current amount)
      in updateStakeStorage w asset account updated)"

definition decreaseStake :: "'ts world \<Rightarrow> Asset \<Rightarrow> address \<Rightarrow> euint64 \<Rightarrow> ebool \<times> euint64" where
  "decreaseStake w asset account amount =
     (let current = getStake w asset account
      in tryDecrease current amount)"

definition increaseTotal :: "'ts world \<Rightarrow> Asset \<Rightarrow> euint64 \<Rightarrow> 'ts world" where
  "increaseTotal w asset amount =
     (if asset = METH
      then (let updated = snd (tryIncrease (totalMethStaked w) amount);
                w1 = FHE_allowThis w updated
            in w1\<lparr>totalMethStaked := updated\<rparr>)
      else (let updated = snd (tryIncrease (totalMusdtStaked w) amount);
                w1 = FHE_allowThis w updated
            in w1\<lparr>totalMusdtStaked := updated\<rparr>))"

definition decreaseTotal :: "'ts world \<Rightarrow> Asset \<Rightarrow> euint64 \<Rightarrow> 'ts world" where
  "decreaseTotal w asset amount =
     (if asset = METH
      then (let updated = snd (tryDecrease (totalMethStaked w) amount);
                w1 = FHE_allowThis w updated
            in w1\<lparr>totalMethStaked := updated\<rparr>)
      else (let updated = snd (tryDecrease (totalMusdtStaked w) amount);
                w1 = FHE_allowThis w updated
            in w1\<lparr>totalMusdtStaked := updated\<rparr>))"

text \<open>
  \<^verbatim>\<open>stake\<close>: \<open>sender\<close> is \<^verbatim>\<open>msg.sender\<close>. A revert is the value \<open>Inl\<close>; the state is
  then the one before the call (see \<open>transact\<close>). The vault reverts by its own check, by
  the validation of the input, or because the token it calls reverts.
\<close>

definition stake ::
  "'ts IERC7984 \<Rightarrow> verifier \<Rightarrow> 'ts world \<Rightarrow> address \<Rightarrow>
   Asset \<Rightarrow> externalEuint64 \<Rightarrow> bytes \<Rightarrow> error + 'ts world" where
  "stake T V w sender asset encryptedAmount inputProof =
     (let token = getToken w asset in
      if \<not> isOperator T (tokens w token) sender (vaultAddress w)
      then Inl NebulaVaultOperatorMissing
      else
        (case FHE_fromExternal V sender encryptedAmount inputProof of
           Inl e \<Rightarrow> Inl e
         | Inr amount \<Rightarrow>
             (let w1 = FHE_allow w amount token in
              case confidentialTransferFrom T (tokens w1 token) (vaultAddress w1)
                     sender (vaultAddress w1) amount of
                Inl e \<Rightarrow> Inl (TokenReverted e)
              | Inr r \<Rightarrow>
                  (let transferred = fst r;
                       w2 = w1\<lparr>tokens := (tokens w1)(token := snd r)\<rparr>;
                       w3 = increaseStake w2 asset sender transferred;
                       w4 = increaseTotal w3 asset transferred
                   in Inr (w4\<lparr>events := events w4 @ [Staked sender asset transferred]\<rparr>)))))"

definition unstake ::
  "'ts IERC7984 \<Rightarrow> verifier \<Rightarrow> 'ts world \<Rightarrow> address \<Rightarrow>
   Asset \<Rightarrow> externalEuint64 \<Rightarrow> bytes \<Rightarrow> error + 'ts world" where
  "unstake T V w sender asset encryptedAmount inputProof =
     (let token = getToken w asset in
      case FHE_fromExternal V sender encryptedAmount inputProof of
        Inl e \<Rightarrow> Inl e
      | Inr requested \<Rightarrow>
          (let d = decreaseStake w asset sender requested;
               canWithdraw = fst d;
               updatedStake = snd d;
               withdrawAmount = FHE_select canWithdraw requested (FHE_asEuint64 0);
               w1 = FHE_allow w withdrawAmount token
           in case confidentialTransfer T (tokens w1 token) (vaultAddress w1) sender
                     withdrawAmount of
                Inl e \<Rightarrow> Inl (TokenReverted e)
              | Inr r \<Rightarrow>
                  (let sent = fst r;
                       w2 = w1\<lparr>tokens := (tokens w1)(token := snd r)\<rparr>;
                       w3 = updateStakeStorage w2 asset sender updatedStake;
                       w4 = decreaseTotal w3 asset sent
                   in Inr (w4\<lparr>events := events w4 @ [Unstaked sender asset sent]\<rparr>))))"

subsection \<open>Transactions and runs\<close>

text \<open>
  A call that reverts leaves the state as it was: \<open>transact\<close> gives the error, if any,
  and the state after the transaction.
\<close>

definition transact :: "('w \<Rightarrow> error + 'w) \<Rightarrow> 'w \<Rightarrow> error option \<times> 'w" where
  "transact f w = (case f w of Inl e \<Rightarrow> (Some e, w) | Inr w' \<Rightarrow> (None, w'))"

datatype call =
    StakeCall address Asset externalEuint64 bytes
  | UnstakeCall address Asset externalEuint64 bytes

fun exec ::
  "'ts IERC7984 \<Rightarrow> verifier \<Rightarrow> 'ts world \<Rightarrow> call \<Rightarrow> 'ts world" where
  "exec T V w (StakeCall sender asset h p) =
     snd (transact (\<lambda>w. stake T V w sender asset h p) w)"
| "exec T V w (UnstakeCall sender asset h p) =
     snd (transact (\<lambda>w. unstake T V w sender asset h p) w)"

definition run ::
  "'ts IERC7984 \<Rightarrow> verifier \<Rightarrow> 'ts world \<Rightarrow> call list \<Rightarrow> 'ts world" where
  "run T V w calls = foldl (exec T V) w calls"

subsection \<open>The calls a transaction makes to the token\<close>

text \<open>
  The \<^verbatim>\<open>confidentialTransferFrom\<close> of \<^verbatim>\<open>stake\<close> for a validated input \<open>amount\<close>: it
  reverts, or returns the amount it reports as moved (\<^verbatim>\<open>transferred\<close>) and the new state
  of the token.
\<close>

definition stakeTransfer ::
  "'ts IERC7984 \<Rightarrow> 'ts world \<Rightarrow> address \<Rightarrow> Asset \<Rightarrow> euint64 \<Rightarrow> token_error + euint64 \<times> 'ts" where
  "stakeTransfer T w sender asset amount =
     confidentialTransferFrom T (tokens w (getToken w asset)) (vaultAddress w) sender
       (vaultAddress w) amount"

text \<open>The amount \<^verbatim>\<open>unstake\<close> asks the token to send (\<^verbatim>\<open>withdrawAmount\<close>).\<close>

definition unstakeWithdrawAmount :: "'ts world \<Rightarrow> address \<Rightarrow> Asset \<Rightarrow> euint64 \<Rightarrow> euint64" where
  "unstakeWithdrawAmount w sender asset requested =
     FHE_select (fst (decreaseStake w asset sender requested)) requested (FHE_asEuint64 0)"

text \<open>
  The \<^verbatim>\<open>confidentialTransfer\<close> of \<^verbatim>\<open>unstake\<close> for a validated input \<open>requested\<close>: it
  reverts, or returns the amount it reports as sent (\<^verbatim>\<open>sent\<close>) and the new state of the
  token.
\<close>

definition unstakeTransfer ::
  "'ts IERC7984 \<Rightarrow> 'ts world \<Rightarrow> address \<Rightarrow> Asset \<Rightarrow> euint64 \<Rightarrow> token_error + euint64 \<times> 'ts" where
  "unstakeTransfer T w sender asset requested =
     confidentialTransfer T (tokens w (getToken w asset)) (vaultAddress w) sender
       (unstakeWithdrawAmount w sender asset requested)"

subsection \<open>Tokens\<close>

text \<open>
  Modelled from the spec: a faithful token (spec 5, 6 and 8: a token that moves exactly the
  requested amount when the payer holds it, and nothing otherwise, reports the amount
  moved, and completes or fails atomically). The ERC7984 implementation the deployed
  tokens inherit is not part of the repository. A balance is \<open>None\<close> until it is first
  written (the all-zero handle, which reads as 0); a transfer from an account whose balance
  has never been written reverts with \<^verbatim>\<open>ERC7984ZeroBalance\<close>. Balances are kept in the clear;
  \<open>operators\<close> holds the pairs (holder, operator) approved by \<^verbatim>\<open>setOperator\<close> and not yet
  expired.
\<close>

record token_state =
  balances :: "address \<Rightarrow> nat option"
  operators :: "(address \<times> address) set"

definition balanceOf :: "token_state \<Rightarrow> address \<Rightarrow> nat" where
  "balanceOf ts account = (case balances ts account of None \<Rightarrow> 0 | Some b \<Rightarrow> b)"

definition move ::
  "token_state \<Rightarrow> address \<Rightarrow> address \<Rightarrow> euint64 \<Rightarrow> token_error + euint64 \<times> token_state" where
  "move ts payer payee amount =
     (case balances ts payer of
        None \<Rightarrow> Inl (ERC7984ZeroBalance payer)
      | Some b \<Rightarrow>
          (let moved = (if unat (decrypt amount) \<le> b then amount else FHE_asEuint64 0);
               t = unat (decrypt moved);
               ts1 = ts\<lparr>balances := (balances ts)(payer := Some (b - t))\<rparr>;
               ts2 = ts1\<lparr>balances := (balances ts1)(payee := Some (balanceOf ts1 payee + t))\<rparr>
           in Inr (moved, ts2)))"

definition faithfulToken :: "token_state IERC7984" where
  "faithfulToken =
     \<lparr> isOperator = (\<lambda>ts holder spender. (holder, spender) \<in> operators ts),
       confidentialTransferFrom = (\<lambda>ts caller payer payee amount. move ts payer payee amount),
       confidentialTransfer = (\<lambda>ts caller payee amount. move ts caller payee amount) \<rparr>"

text \<open>
  A token that approves every operator, reports a deposit as moved in full, and reports
  \<open>r\<close> as the amount sent by every \<^verbatim>\<open>confidentialTransfer\<close> (a token applying its own
  fees or limits, spec 4.4).
\<close>

definition reportingToken :: "euint64 \<Rightarrow> unit IERC7984" where
  "reportingToken r =
     \<lparr> isOperator = (\<lambda>ts holder spender. True),
       confidentialTransferFrom = (\<lambda>ts caller payer payee amount. Inr (amount, ts)),
       confidentialTransfer = (\<lambda>ts caller payee amount. Inr (r, ts)) \<rparr>"

text \<open>
  A token that approves every operator and moves at most \<open>cap\<close> in a deposit (a token
  enforcing its own limits, spec 4.4); it sends what it is asked to send.
\<close>

definition cappingToken :: "uint64 \<Rightarrow> unit IERC7984" where
  "cappingToken cap =
     \<lparr> isOperator = (\<lambda>ts holder spender. True),
       confidentialTransferFrom =
         (\<lambda>ts caller payer payee amount. Inr (FHE_asEuint64 (min cap (decrypt amount)), ts)),
       confidentialTransfer = (\<lambda>ts caller payee amount. Inr (amount, ts)) \<rparr>"

subsection \<open>Example data\<close>

definition alice :: address where "alice = 10"
definition bob :: address where "bob = 11"
definition vaultAt :: address where "vaultAt = 100"
definition methAt :: address where "methAt = 1"
definition musdtAt :: address where "musdtAt = 2"

text \<open>
  An input verifier that accepts every non-empty proof, from every user; the plaintext of
  handle \<open>h\<close> is \<open>h\<close>.
\<close>

definition exampleVerifier :: verifier where
  "exampleVerifier user h p = (if p = [] then None else Some (ucast h))"

text \<open>A token state in which \<open>alice\<close> holds the faucet's 1000000 units and has approved the vault.\<close>

definition fundedToken :: token_state where
  "fundedToken =
     \<lparr> balances = (\<lambda>_. None)(alice := Some 1000000), operators = {(alice, vaultAt)} \<rparr>"

text \<open>
  The vault right after deployment over the funded token, and after \<open>alice\<close> has staked
  500000 mETH (the scenario of the test suite).
\<close>

definition freshWorld :: "token_state world" where
  "freshWorld = emptyVault vaultAt methAt musdtAt (\<lambda>_. fundedToken)"

definition stakedWorld :: "token_state world" where
  "stakedWorld = run faithfulToken exampleVerifier freshWorld [StakeCall alice METH 500000 [1]]"

text \<open>A vault over a token that reports \<open>r\<close> as sent, after \<open>alice\<close> has staked 10 mETH.\<close>

definition reportedWorld :: "euint64 \<Rightarrow> unit world" where
  "reportedWorld r =
     run (reportingToken r) exampleVerifier (emptyVault vaultAt methAt musdtAt (\<lambda>_. ()))
       [StakeCall alice METH 10 [1]]"

text \<open>
  A vault over a token that moves at most 4 in a deposit, after \<open>alice\<close> has asked to stake
  10 mETH: 4 were moved.
\<close>

definition cappedWorld :: "unit world" where
  "cappedWorld =
     run (cappingToken 4) exampleVerifier (emptyVault vaultAt methAt musdtAt (\<lambda>_. ()))
       [StakeCall alice METH 10 [1]]"

subsection \<open>The ledger invariant\<close>

definition sumStakes :: "'ts world \<Rightarrow> Asset \<Rightarrow> nat" where
  "sumStakes w asset = (\<Sum>a\<in>UNIV. unat (decrypt (getStake w asset a)))"

definition ledgerConsistent :: "'ts world \<Rightarrow> bool" where
  "ledgerConsistent w =
     (unat (decrypt (getTotalStaked w METH)) = sumStakes w METH \<and>
      unat (decrypt (getTotalStaked w MUSDT)) = sumStakes w MUSDT)"

text \<open>
  A call is \<open>exact\<close> in a state when a deposit does not take the total out of the 64-bit
  range, and the token reports as sent exactly the amount a withdrawal asked it to send
  (nothing is asked of a call whose proof is invalid or whose token call reverts: it leaves
  the state as it is). A run is exact when each of its calls is, in the state it is made in.
\<close>

fun exact ::
  "'ts IERC7984 \<Rightarrow> verifier \<Rightarrow> 'ts world \<Rightarrow> call \<Rightarrow> bool" where
  "exact T V w (StakeCall sender asset h p) =
     (case V sender h p of
        None \<Rightarrow> True
      | Some v \<Rightarrow>
          (case stakeTransfer T w sender asset (Ciphertext h v) of
             Inl e \<Rightarrow> True
           | Inr r \<Rightarrow>
               unat (decrypt (getTotalStaked w asset)) + unat (decrypt (fst r)) < 2 ^ 64))"
| "exact T V w (UnstakeCall sender asset h p) =
     (case V sender h p of
        None \<Rightarrow> True
      | Some v \<Rightarrow>
          (case unstakeTransfer T w sender asset (Ciphertext h v) of
             Inl e \<Rightarrow> True
           | Inr r \<Rightarrow>
               decrypt (fst r) =
               decrypt (unstakeWithdrawAmount w sender asset (Ciphertext h v))))"

fun exactRun ::
  "'ts IERC7984 \<Rightarrow> verifier \<Rightarrow> 'ts world \<Rightarrow> call list \<Rightarrow> bool" where
  "exactRun T V w [] = True"
| "exactRun T V w (c # cs) = (exact T V w c \<and> exactRun T V (exec T V w c) cs)"

subsection \<open>Custody\<close>

text \<open>
  The supply of a faithful token is a 64-bit amount, as every amount of the token is.
  \<open>held w token\<close> is what the vault owes on \<open>token\<close>: the sum of the stakes of the assets
  whose token it is (both assets, when the vault was deployed with one token for both).
  The vault is in custody of its stakes when it holds on every token at least what it owes
  on it.
\<close>

definition totalSupply :: "token_state \<Rightarrow> nat" where
  "totalSupply ts = (\<Sum>a\<in>UNIV. balanceOf ts a)"

definition held :: "'ts world \<Rightarrow> address \<Rightarrow> nat" where
  "held w token =
     (if getToken w METH = token then sumStakes w METH else 0) +
     (if getToken w MUSDT = token then sumStakes w MUSDT else 0)"

definition custody :: "token_state world \<Rightarrow> bool" where
  "custody w =
     ((\<forall>token. held w token \<le> balanceOf (tokens w token) (vaultAddress w)) \<and>
      totalSupply (tokens w (methToken w)) < 2 ^ 64 \<and>
      totalSupply (tokens w (musdtToken w)) < 2 ^ 64)"

fun callSender :: "call \<Rightarrow> address" where
  "callSender (StakeCall sender asset h p) = sender"
| "callSender (UnstakeCall sender asset h p) = sender"

text \<open>No call of the list is made by \<open>self\<close> (the vault never calls itself).\<close>

fun external :: "address \<Rightarrow> call list \<Rightarrow> bool" where
  "external self [] = True"
| "external self (c # cs) = (callSender c \<noteq> self \<and> external self cs)"

subsection \<open>Decrypt grants on stored values\<close>

definition granted :: "'ts world \<Rightarrow> euint64 \<Rightarrow> address \<Rightarrow> bool" where
  "granted w handle who = ((handle, who) \<in> acl w)"

text \<open>
  Every stake position that has been written carries a grant for the vault and for its
  account, and every total that has been written carries a grant for the vault.
\<close>

definition storageGranted :: "'ts world \<Rightarrow> bool" where
  "storageGranted w =
     ((\<forall>asset account.
         getStake w asset account = Uninitialized \<or>
         (granted w (getStake w asset account) (vaultAddress w) \<and>
          granted w (getStake w asset account) account)) \<and>
      (\<forall>asset.
         getTotalStaked w asset = Uninitialized \<or>
         granted w (getTotalStaked w asset) (vaultAddress w)))"

text \<open>
  The amount a call hands to the token when its proof is valid, and on which the vault
  grants the token before it calls it: the validated input of a \<^verbatim>\<open>stake\<close>, the
  \<^verbatim>\<open>withdrawAmount\<close> of an \<^verbatim>\<open>unstake\<close>.
\<close>

fun handedToToken :: "verifier \<Rightarrow> 'ts world \<Rightarrow> call \<Rightarrow> euint64 option" where
  "handedToToken V w (StakeCall sender asset h p) =
     (case V sender h p of None \<Rightarrow> None | Some v \<Rightarrow> Some (Ciphertext h v))"
| "handedToToken V w (UnstakeCall sender asset h p) =
     (case V sender h p of
        None \<Rightarrow> None
      | Some v \<Rightarrow> Some (unstakeWithdrawAmount w sender asset (Ciphertext h v)))"

fun callAsset :: "call \<Rightarrow> Asset" where
  "callAsset (StakeCall sender asset h p) = asset"
| "callAsset (UnstakeCall sender asset h p) = asset"

section \<open>Properties\<close>

subsection \<open>What each function does to the state\<close>

lemmas fhe_defs = FHE_asEuint64_def FHE_add_def FHE_sub_def FHE_ge_def FHE_select_def
  FHE_allow_def FHE_allowThis_def tryIncrease_def tryDecrease_def

lemma getStake_updateStakeStorage:
  "getStake (updateStakeStorage w asset account v) c a =
     (if c = asset \<and> a = account then v else getStake w c a)"
  by (cases asset; cases c) (simp_all add: getStake_def updateStakeStorage_def fhe_defs Let_def)

lemma getTotalStaked_updateStakeStorage:
  "getTotalStaked (updateStakeStorage w asset account v) c = getTotalStaked w c"
  by (simp add: getTotalStaked_def updateStakeStorage_def fhe_defs Let_def)

lemma acl_updateStakeStorage:
  "acl (updateStakeStorage w asset account v) =
     insert (v, account) (insert (v, vaultAddress w) (acl w))"
  by (simp add: updateStakeStorage_def fhe_defs Let_def)

lemma frame_updateStakeStorage:
  "vaultAddress (updateStakeStorage w asset account v) = vaultAddress w"
  "methToken (updateStakeStorage w asset account v) = methToken w"
  "musdtToken (updateStakeStorage w asset account v) = musdtToken w"
  "tokens (updateStakeStorage w asset account v) = tokens w"
  "events (updateStakeStorage w asset account v) = events w"
  by (simp_all add: updateStakeStorage_def fhe_defs Let_def)

lemma getStake_increaseStake:
  "getStake (increaseStake w asset account amount) c a =
     (if c = asset \<and> a = account then Add (getStake w asset account) amount else getStake w c a)"
  by (simp add: increaseStake_def Let_def getStake_updateStakeStorage fhe_defs)

lemma getTotalStaked_increaseStake:
  "getTotalStaked (increaseStake w asset account amount) c = getTotalStaked w c"
  by (simp add: increaseStake_def Let_def getTotalStaked_updateStakeStorage)

lemma acl_increaseStake:
  "acl (increaseStake w asset account amount) =
     insert (Add (getStake w asset account) amount, account)
       (insert (Add (getStake w asset account) amount, vaultAddress w) (acl w))"
  by (simp add: increaseStake_def Let_def acl_updateStakeStorage fhe_defs)

lemma frame_increaseStake:
  "vaultAddress (increaseStake w asset account v) = vaultAddress w"
  "methToken (increaseStake w asset account v) = methToken w"
  "musdtToken (increaseStake w asset account v) = musdtToken w"
  "tokens (increaseStake w asset account v) = tokens w"
  "events (increaseStake w asset account v) = events w"
  by (simp_all add: increaseStake_def Let_def frame_updateStakeStorage)

lemma getStake_increaseTotal:
  "getStake (increaseTotal w asset amount) c a = getStake w c a"
  by (simp add: increaseTotal_def getStake_def fhe_defs Let_def)

lemma getTotalStaked_increaseTotal:
  "getTotalStaked (increaseTotal w asset amount) c =
     (if c = asset then Add (getTotalStaked w asset) amount else getTotalStaked w c)"
  by (cases asset; cases c) (simp_all add: increaseTotal_def getTotalStaked_def fhe_defs Let_def)

lemma acl_increaseTotal:
  "acl (increaseTotal w asset amount) =
     insert (Add (getTotalStaked w asset) amount, vaultAddress w) (acl w)"
  by (simp add: increaseTotal_def getTotalStaked_def fhe_defs Let_def)

lemma frame_increaseTotal:
  "vaultAddress (increaseTotal w asset v) = vaultAddress w"
  "methToken (increaseTotal w asset v) = methToken w"
  "musdtToken (increaseTotal w asset v) = musdtToken w"
  "tokens (increaseTotal w asset v) = tokens w"
  "events (increaseTotal w asset v) = events w"
  by (simp_all add: increaseTotal_def fhe_defs Let_def)

lemma getStake_decreaseTotal:
  "getStake (decreaseTotal w asset amount) c a = getStake w c a"
  by (simp add: decreaseTotal_def getStake_def fhe_defs Let_def)

lemma getTotalStaked_decreaseTotal:
  "getTotalStaked (decreaseTotal w asset amount) c =
     (if c = asset then snd (tryDecrease (getTotalStaked w asset) amount) else getTotalStaked w c)"
  by (cases asset; cases c) (simp_all add: decreaseTotal_def getTotalStaked_def FHE_allow_def FHE_allowThis_def Let_def)

lemma acl_decreaseTotal:
  "acl (decreaseTotal w asset amount) =
     insert (snd (tryDecrease (getTotalStaked w asset) amount), vaultAddress w) (acl w)"
  by (simp add: decreaseTotal_def getTotalStaked_def FHE_allow_def FHE_allowThis_def Let_def)

lemma frame_decreaseTotal:
  "vaultAddress (decreaseTotal w asset v) = vaultAddress w"
  "methToken (decreaseTotal w asset v) = methToken w"
  "musdtToken (decreaseTotal w asset v) = musdtToken w"
  "tokens (decreaseTotal w asset v) = tokens w"
  "events (decreaseTotal w asset v) = events w"
  by (simp_all add: decreaseTotal_def fhe_defs Let_def)

lemma frame_FHE_allow:
  "getStake (FHE_allow w v a) c b = getStake w c b"
  "getTotalStaked (FHE_allow w v a) c = getTotalStaked w c"
  "getToken (FHE_allow w v a) c = getToken w c"
  "vaultAddress (FHE_allow w v a) = vaultAddress w"
  "tokens (FHE_allow w v a) = tokens w"
  "events (FHE_allow w v a) = events w"
  "acl (FHE_allow w v a) = insert (v, a) (acl w)"
  by (simp_all add: FHE_allow_def getStake_def getTotalStaked_def getToken_def)

lemma frame_tokens_update:
  "getStake (w\<lparr>tokens := t\<rparr>) c b = getStake w c b"
  "getTotalStaked (w\<lparr>tokens := t\<rparr>) c = getTotalStaked w c"
  "getToken (w\<lparr>tokens := t\<rparr>) c = getToken w c"
  "vaultAddress (w\<lparr>tokens := t\<rparr>) = vaultAddress w"
  "getStake (w\<lparr>events := e\<rparr>) c b = getStake w c b"
  "getTotalStaked (w\<lparr>events := e\<rparr>) c = getTotalStaked w c"
  "getToken (w\<lparr>events := e\<rparr>) c = getToken w c"
  by (simp_all add: getStake_def getTotalStaked_def getToken_def)


lemma getToken_frame:
  "getToken (updateStakeStorage w asset account v) c = getToken w c"
  "getToken (increaseStake w asset account v) c = getToken w c"
  "getToken (increaseTotal w asset v) c = getToken w c"
  "getToken (decreaseTotal w asset v) c = getToken w c"
  by (simp_all add: getToken_def frame_updateStakeStorage frame_increaseStake
      frame_increaseTotal frame_decreaseTotal)

lemma decreaseStake_eq:
  "decreaseStake w asset account amount =
     (Ge (getStake w asset account) amount,
      Select (Ge (getStake w asset account) amount)
        (Sub (getStake w asset account) amount) (getStake w asset account))"
  by (simp add: decreaseStake_def fhe_defs Let_def)

lemma tryDecrease_eq:
  "tryDecrease current delta =
     (Ge current delta, Select (Ge current delta) (Sub current delta) current)"
  by (simp add: fhe_defs Let_def)

lemma tryIncrease_eq:
  "tryIncrease current delta = (Ge (Add current delta) current, Add current delta)"
  by (simp add: fhe_defs Let_def)

lemma stake_valid:
  assumes "isOperator T (tokens w (getToken w asset)) sender (vaultAddress w)"
    and "V sender h p = Some v"
    and "stakeTransfer T w sender asset (Ciphertext h v) = Inr (transferred, ts')"
  shows "\<exists>w'. stake T V w sender asset h p = Inr w' \<and>
    (\<forall>c a. getStake w' c a =
           (if c = asset \<and> a = sender
            then Add (getStake w asset sender) transferred
            else getStake w c a)) \<and>
    (\<forall>c. getTotalStaked w' c =
           (if c = asset
            then Add (getTotalStaked w asset) transferred
            else getTotalStaked w c)) \<and>
    acl w' =
           insert (getTotalStaked w' asset, vaultAddress w)
            (insert (getStake w' asset sender, sender)
              (insert (getStake w' asset sender, vaultAddress w)
                (insert (Ciphertext h v, getToken w asset) (acl w)))) \<and>
    events w' = events w @ [Staked sender asset transferred] \<and>
    tokens w' = (tokens w)(getToken w asset := ts') \<and>
    vaultAddress w' = vaultAddress w \<and>
    methToken w' = methToken w \<and>
    musdtToken w' = musdtToken w"
proof -
  let ?a = "Ciphertext h v"
  let ?tk = "getToken w asset"
  let ?w2 = "(FHE_allow w ?a ?tk)\<lparr>tokens := (tokens w)(?tk := ts')\<rparr>"
  let ?w4 = "increaseTotal (increaseStake ?w2 asset sender transferred) asset transferred"
  let ?w' = "?w4\<lparr>events := events ?w4 @ [Staked sender asset transferred]\<rparr>"
  have call: "confidentialTransferFrom T (tokens w ?tk) (vaultAddress w) sender (vaultAddress w) ?a
                = Inr (transferred, ts')"
    using assms(3) by (simp add: stakeTransfer_def)
  have eq: "stake T V w sender asset h p = Inr ?w'"
    using assms(1,2) call by (simp add: stake_def FHE_fromExternal_def Let_def frame_FHE_allow)
  have s: "\<And>c a. getStake ?w' c a =
           (if c = asset \<and> a = sender
            then Add (getStake w asset sender) transferred
            else getStake w c a)"
    by (simp add: frame_tokens_update getStake_increaseTotal getStake_increaseStake
        frame_FHE_allow)
  have t: "\<And>c. getTotalStaked ?w' c =
           (if c = asset
            then Add (getTotalStaked w asset) transferred
            else getTotalStaked w c)"
    by (simp add: frame_tokens_update getTotalStaked_increaseTotal getTotalStaked_increaseStake
        frame_FHE_allow)
  have a: "acl ?w' =
           insert (getTotalStaked ?w' asset, vaultAddress w)
            (insert (getStake ?w' asset sender, sender)
              (insert (getStake ?w' asset sender, vaultAddress w)
                (insert (?a, ?tk) (acl w))))"
    unfolding s t
    by (simp add: acl_increaseTotal acl_increaseStake frame_increaseStake frame_tokens_update
        getTotalStaked_increaseStake frame_FHE_allow)
  have e: "events ?w' = events w @ [Staked sender asset transferred]"
    by (simp add: frame_increaseTotal frame_increaseStake frame_FHE_allow)
  have k: "tokens ?w' = (tokens w)(?tk := ts')"
    by (simp add: frame_increaseTotal frame_increaseStake)
  have f: "vaultAddress ?w' = vaultAddress w" "methToken ?w' = methToken w"
    "musdtToken ?w' = musdtToken w"
    by (simp_all add: frame_increaseTotal frame_increaseStake FHE_allow_def)
  show ?thesis
    by (intro exI [of _ ?w'] conjI allI) (rule eq s t a e k f)+
qed

lemma stake_reverts:
  assumes "isOperator T (tokens w (getToken w asset)) sender (vaultAddress w)"
    and "V sender h p = Some v"
    and "stakeTransfer T w sender asset (Ciphertext h v) = Inl e"
  shows "stake T V w sender asset h p = Inl (TokenReverted e)"
  using assms
  by (simp add: stake_def stakeTransfer_def FHE_fromExternal_def Let_def frame_FHE_allow)

lemma stake_Inr_valid:
  assumes "stake T V w sender asset h p = Inr w'"
  shows "isOperator T (tokens w (getToken w asset)) sender (vaultAddress w) \<and>
         (\<exists>v transferred ts'. V sender h p = Some v \<and>
            stakeTransfer T w sender asset (Ciphertext h v) = Inr (transferred, ts'))"
  using assms
  by (auto simp: stake_def stakeTransfer_def Let_def FHE_fromExternal_def frame_FHE_allow
      split: if_splits option.splits sum.splits)

lemma unstake_valid:
  assumes "V sender h p = Some v"
    and "unstakeTransfer T w sender asset (Ciphertext h v) = Inr (sent, ts')"
  shows "\<exists>w'. unstake T V w sender asset h p = Inr w' \<and>
    (\<forall>c a. getStake w' c a =
           (if c = asset \<and> a = sender
            then snd (tryDecrease (getStake w asset sender) (Ciphertext h v))
            else getStake w c a)) \<and>
    (\<forall>c. getTotalStaked w' c =
           (if c = asset
            then snd (tryDecrease (getTotalStaked w asset) sent)
            else getTotalStaked w c)) \<and>
    acl w' =
           insert (getTotalStaked w' asset, vaultAddress w)
            (insert (getStake w' asset sender, sender)
              (insert (getStake w' asset sender, vaultAddress w)
                (insert (unstakeWithdrawAmount w sender asset (Ciphertext h v), getToken w asset)
                   (acl w)))) \<and>
    events w' = events w @ [Unstaked sender asset sent] \<and>
    tokens w' = (tokens w)(getToken w asset := ts') \<and>
    vaultAddress w' = vaultAddress w \<and>
    methToken w' = methToken w \<and>
    musdtToken w' = musdtToken w"
proof -
  let ?a = "Ciphertext h v"
  let ?tk = "getToken w asset"
  let ?wa = "unstakeWithdrawAmount w sender asset ?a"
  let ?w2 = "(FHE_allow w ?wa ?tk)\<lparr>tokens := (tokens w)(?tk := ts')\<rparr>"
  let ?w4 = "decreaseTotal (updateStakeStorage ?w2 asset sender
               (snd (decreaseStake w asset sender ?a))) asset sent"
  let ?w' = "?w4\<lparr>events := events ?w4 @ [Unstaked sender asset sent]\<rparr>"
  have call: "confidentialTransfer T (tokens w ?tk) (vaultAddress w) sender ?wa = Inr (sent, ts')"
    using assms(2) by (simp add: unstakeTransfer_def)
  have eq: "unstake T V w sender asset h p = Inr ?w'"
    using assms(1) call
    by (simp add: unstake_def FHE_fromExternal_def Let_def frame_FHE_allow
        unstakeWithdrawAmount_def)
  have s: "\<And>c a. getStake ?w' c a =
           (if c = asset \<and> a = sender
            then snd (tryDecrease (getStake w asset sender) ?a)
            else getStake w c a)"
    by (simp add: frame_tokens_update getStake_decreaseTotal getStake_updateStakeStorage
        frame_FHE_allow decreaseStake_def)
  have t: "\<And>c. getTotalStaked ?w' c =
           (if c = asset
            then snd (tryDecrease (getTotalStaked w asset) sent)
            else getTotalStaked w c)"
    by (simp add: frame_tokens_update getTotalStaked_decreaseTotal
        getTotalStaked_updateStakeStorage frame_FHE_allow)
  have a: "acl ?w' =
           insert (getTotalStaked ?w' asset, vaultAddress w)
            (insert (getStake ?w' asset sender, sender)
              (insert (getStake ?w' asset sender, vaultAddress w)
                (insert (?wa, ?tk) (acl w))))"
    unfolding s t
    by (simp add: acl_decreaseTotal acl_updateStakeStorage frame_updateStakeStorage
        frame_tokens_update getTotalStaked_updateStakeStorage frame_FHE_allow
        decreaseStake_def)
  have e: "events ?w' = events w @ [Unstaked sender asset sent]"
    by (simp add: frame_decreaseTotal frame_updateStakeStorage frame_FHE_allow)
  have k: "tokens ?w' = (tokens w)(?tk := ts')"
    by (simp add: frame_decreaseTotal frame_updateStakeStorage)
  have f: "vaultAddress ?w' = vaultAddress w" "methToken ?w' = methToken w"
    "musdtToken ?w' = musdtToken w"
    by (simp_all add: frame_decreaseTotal frame_updateStakeStorage FHE_allow_def)
  show ?thesis
    by (intro exI [of _ ?w'] conjI allI) (rule eq s t a e k f)+
qed

lemma unstake_reverts:
  assumes "V sender h p = Some v"
    and "unstakeTransfer T w sender asset (Ciphertext h v) = Inl e"
  shows "unstake T V w sender asset h p = Inl (TokenReverted e)"
  using assms
  by (simp add: unstake_def unstakeTransfer_def unstakeWithdrawAmount_def FHE_fromExternal_def
      Let_def frame_FHE_allow)

lemma unstake_Inr_valid:
  assumes "unstake T V w sender asset h p = Inr w'"
  shows "\<exists>v sent ts'. V sender h p = Some v \<and>
           unstakeTransfer T w sender asset (Ciphertext h v) = Inr (sent, ts')"
  using assms
  by (auto simp: unstake_def unstakeTransfer_def unstakeWithdrawAmount_def Let_def
      FHE_fromExternal_def frame_FHE_allow split: option.splits sum.splits)

lemma unstake_invalid:
  "V sender h p = None \<Longrightarrow> unstake T V w sender asset h p = Inl InvalidProof"
  by (simp add: unstake_def Let_def FHE_fromExternal_def)

lemma stake_Inr:
  assumes "stake T V w sender asset h p = Inr w'"
  shows "\<exists>v transferred ts'. V sender h p = Some v \<and>
    isOperator T (tokens w (getToken w asset)) sender (vaultAddress w) \<and>
    stakeTransfer T w sender asset (Ciphertext h v) = Inr (transferred, ts') \<and>
    (\<forall>c a. getStake w' c a =
           (if c = asset \<and> a = sender
            then Add (getStake w asset sender) transferred
            else getStake w c a)) \<and>
    (\<forall>c. getTotalStaked w' c =
           (if c = asset
            then Add (getTotalStaked w asset) transferred
            else getTotalStaked w c)) \<and>
    acl w' =
           insert (getTotalStaked w' asset, vaultAddress w)
            (insert (getStake w' asset sender, sender)
              (insert (getStake w' asset sender, vaultAddress w)
                (insert (Ciphertext h v, getToken w asset) (acl w)))) \<and>
    events w' = events w @ [Staked sender asset transferred] \<and>
    tokens w' = (tokens w)(getToken w asset := ts') \<and>
    vaultAddress w' = vaultAddress w \<and>
    methToken w' = methToken w \<and>
    musdtToken w' = musdtToken w"
proof -
  obtain v transferred ts' where v: "V sender h p = Some v"
    and op: "isOperator T (tokens w (getToken w asset)) sender (vaultAddress w)"
    and tr: "stakeTransfer T w sender asset (Ciphertext h v) = Inr (transferred, ts')"
    using stake_Inr_valid [OF assms] by blast
  from stake_valid [where V = V and h = h and p = p, OF op v tr] assms v op tr
  show ?thesis
    by (intro exI [of _ v] exI [of _ transferred] exI [of _ ts']) auto
qed

lemma unstake_Inr:
  assumes "unstake T V w sender asset h p = Inr w'"
  shows "\<exists>v sent ts'. V sender h p = Some v \<and>
    unstakeTransfer T w sender asset (Ciphertext h v) = Inr (sent, ts') \<and>
    (\<forall>c a. getStake w' c a =
           (if c = asset \<and> a = sender
            then snd (tryDecrease (getStake w asset sender) (Ciphertext h v))
            else getStake w c a)) \<and>
    (\<forall>c. getTotalStaked w' c =
           (if c = asset
            then snd (tryDecrease (getTotalStaked w asset) sent)
            else getTotalStaked w c)) \<and>
    acl w' =
           insert (getTotalStaked w' asset, vaultAddress w)
            (insert (getStake w' asset sender, sender)
              (insert (getStake w' asset sender, vaultAddress w)
                (insert (unstakeWithdrawAmount w sender asset (Ciphertext h v), getToken w asset)
                   (acl w)))) \<and>
    events w' = events w @ [Unstaked sender asset sent] \<and>
    tokens w' = (tokens w)(getToken w asset := ts') \<and>
    vaultAddress w' = vaultAddress w \<and>
    methToken w' = methToken w \<and>
    musdtToken w' = musdtToken w"
proof -
  obtain v sent ts' where v: "V sender h p = Some v"
    and tr: "unstakeTransfer T w sender asset (Ciphertext h v) = Inr (sent, ts')"
    using unstake_Inr_valid [OF assms] by blast
  from unstake_valid [where V = V and h = h and p = p and T = T and w = w and asset = asset,
      OF v tr] assms v tr
  show ?thesis
    by (intro exI [of _ v] exI [of _ sent] exI [of _ ts']) auto
qed

lemma exec_stake_cases:
  obtains (reverted) "exec T V w (StakeCall sender asset h p) = w"
  | (ran) w' where "stake T V w sender asset h p = Inr w'"
      "exec T V w (StakeCall sender asset h p) = w'"
  by (cases "stake T V w sender asset h p") (auto simp: transact_def)

lemma exec_unstake_cases:
  obtains (reverted) "exec T V w (UnstakeCall sender asset h p) = w"
  | (ran) w' where "unstake T V w sender asset h p = Inr w'"
      "exec T V w (UnstakeCall sender asset h p) = w'"
  by (cases "unstake T V w sender asset h p") (auto simp: transact_def)

lemma run_Nil: "run T V w [] = w"
  by (simp add: run_def)

lemma run_Cons: "run T V w (c # cs) = run T V (exec T V w c) cs"
  by (simp add: run_def)

lemma constructor_Inr:
  "constructor self m u ts = Inr w0 \<Longrightarrow> w0 = emptyVault self m u ts"
  by (simp add: constructor_def split: if_splits)

lemma storageGranted_emptyVault: "storageGranted (emptyVault self m u ts)"
  by (simp add: storageGranted_def getStake_def getTotalStaked_def emptyVault_def)

lemma storageGranted_stake:
  assumes "storageGranted w" and "stake T V w sender asset h p = Inr w'"
  shows "storageGranted w'"
proof -
  from stake_Inr [OF assms(2)]
  obtain v transferred where s: "\<forall>c a. getStake w' c a =
           (if c = asset \<and> a = sender
            then Add (getStake w asset sender) transferred
            else getStake w c a)"
    and t: "\<forall>c. getTotalStaked w' c =
           (if c = asset
            then Add (getTotalStaked w asset) transferred
            else getTotalStaked w c)"
    and a: "acl w' =
           insert (getTotalStaked w' asset, vaultAddress w)
            (insert (getStake w' asset sender, sender)
              (insert (getStake w' asset sender, vaultAddress w)
                (insert (Ciphertext h v, getToken w asset) (acl w))))"
    and f: "vaultAddress w' = vaultAddress w"
    by blast
  show ?thesis
    using assms(1) unfolding storageGranted_def granted_def a f
    by (auto simp: s t)
qed

lemma storageGranted_unstake:
  assumes "storageGranted w" and "unstake T V w sender asset h p = Inr w'"
  shows "storageGranted w'"
proof -
  from unstake_Inr [OF assms(2)]
  obtain v sent where s: "\<forall>c a. getStake w' c a =
           (if c = asset \<and> a = sender
            then snd (tryDecrease (getStake w asset sender) (Ciphertext h v))
            else getStake w c a)"
    and t: "\<forall>c. getTotalStaked w' c =
           (if c = asset
            then snd (tryDecrease (getTotalStaked w asset) sent)
            else getTotalStaked w c)"
    and a: "acl w' =
           insert (getTotalStaked w' asset, vaultAddress w)
            (insert (getStake w' asset sender, sender)
              (insert (getStake w' asset sender, vaultAddress w)
                (insert (unstakeWithdrawAmount w sender asset (Ciphertext h v), getToken w asset)
                   (acl w))))"
    and f: "vaultAddress w' = vaultAddress w"
    by blast
  show ?thesis
    using assms(1) unfolding storageGranted_def granted_def a f
    by (auto simp: s t)
qed

lemma storageGranted_exec:
  assumes "storageGranted w"
  shows "storageGranted (exec T V w c)"
proof (cases c)
  case (StakeCall sender asset h p)
  show ?thesis
    unfolding StakeCall
    by (cases rule: exec_stake_cases [of T V w sender asset h p])
      (use assms storageGranted_stake in auto)
next
  case (UnstakeCall sender asset h p)
  show ?thesis
    unfolding UnstakeCall
    by (cases rule: exec_unstake_cases [of T V w sender asset h p])
      (use assms storageGranted_unstake in auto)
qed

lemma storageGranted_run:
  "storageGranted w \<Longrightarrow> storageGranted (run T V w calls)"
  by (induction calls arbitrary: w) (simp_all add: run_Nil run_Cons storageGranted_exec)

lemma sum_upd:
  fixes f :: "address \<Rightarrow> nat"
  shows "(\<Sum>a\<in>UNIV. if a = s then x else f a) + f s = (\<Sum>a\<in>UNIV. f a) + x"
proof -
  have g: "(\<Sum>a\<in>UNIV. if a = s then x else f a) =
           x + (\<Sum>a\<in>UNIV - {s}. if a = s then x else f a)"
    by (subst sum.remove [of UNIV s]) simp_all
  have f: "(\<Sum>a\<in>UNIV. f a) = f s + (\<Sum>a\<in>UNIV - {s}. f a)"
    by (subst sum.remove [of UNIV s]) simp_all
  have "(\<Sum>a\<in>UNIV - {s}. if a = s then x else f a) = (\<Sum>a\<in>UNIV - {s}. f a)"
    by (rule sum.cong) simp_all
  with g f show ?thesis by simp
qed

lemma sum_single:
  fixes f :: "address \<Rightarrow> nat"
  assumes "\<And>a. a \<noteq> s \<Longrightarrow> f a = 0"
  shows "(\<Sum>a\<in>UNIV. f a) = f s"
proof -
  have "(\<Sum>a\<in>UNIV. f a) = f s + (\<Sum>a\<in>UNIV - {s}. f a)"
    by (subst sum.remove [of UNIV s]) simp_all
  moreover have "(\<Sum>a\<in>UNIV - {s}. f a) = 0"
    using assms by simp
  ultimately show ?thesis by simp
qed

lemma stake_le_sumStakes:
  "unat (decrypt (getStake w asset sender)) \<le> sumStakes w asset"
  unfolding sumStakes_def
  by (rule member_le_sum) simp_all

lemma ledgerConsistent_iff:
  "ledgerConsistent w = (\<forall>c. unat (decrypt (getTotalStaked w c)) = sumStakes w c)"
  unfolding ledgerConsistent_def
  by (metis (full_types) Asset.exhaust)

lemma sumStakes_frame:
  assumes "\<forall>a. getStake w' c a = getStake w c a"
  shows "sumStakes w' c = sumStakes w c"
  using assms by (simp add: sumStakes_def)

lemma sumStakes_upd:
  assumes "\<forall>a. getStake w' c a = (if a = s then x else getStake w c a)"
  shows "sumStakes w' c + unat (decrypt (getStake w c s)) = sumStakes w c + unat (decrypt x)"
proof -
  have eq: "(\<Sum>a\<in>UNIV. unat (decrypt (getStake w' c a))) =
        (\<Sum>a\<in>UNIV. if a = s then unat (decrypt x) else unat (decrypt (getStake w c a)))"
    by (rule sum.cong) (simp_all add: assms)
  show ?thesis
    unfolding sumStakes_def eq by (rule sum_upd)
qed

lemma ledgerConsistent_stake:
  assumes inv: "ledgerConsistent w"
    and ex: "exact T V w (StakeCall sender asset h p)"
    and st: "stake T V w sender asset h p = Inr w'"
  shows "ledgerConsistent w'"
proof -
  from stake_Inr [OF st]
  obtain v transferred ts' where v: "V sender h p = Some v"
    and tr: "stakeTransfer T w sender asset (Ciphertext h v) = Inr (transferred, ts')"
    and s: "\<forall>c a. getStake w' c a =
           (if c = asset \<and> a = sender
            then Add (getStake w asset sender) transferred
            else getStake w c a)"
    and t: "\<forall>c. getTotalStaked w' c =
           (if c = asset
            then Add (getTotalStaked w asset) transferred
            else getTotalStaked w c)"
    by blast
  let ?m = "decrypt transferred"
  let ?old = "decrypt (getStake w asset sender)"
  let ?tot = "decrypt (getTotalStaked w asset)"
  have inv': "\<And>c. unat (decrypt (getTotalStaked w c)) = sumStakes w c"
    using inv by (simp add: ledgerConsistent_iff)
  have fits: "unat ?tot + unat ?m < 2 ^ 64"
    using ex v tr by simp
  have "unat ?old \<le> unat ?tot"
    using stake_le_sumStakes [of w asset sender] inv' [of asset] by simp
  with fits have fits_old: "unat ?old + unat ?m < 2 ^ 64"
    by simp
  have tot': "unat (?tot + ?m) = unat ?tot + unat ?m"
    using fits by (simp add: unat_add_lem [THEN iffD1])
  have old': "unat (?old + ?m) = unat ?old + unat ?m"
    using fits_old by (simp add: unat_add_lem [THEN iffD1])
  have "unat (decrypt (getTotalStaked w' c)) = sumStakes w' c" for c
  proof (cases "c = asset")
    case True
    have "\<forall>a. getStake w' asset a =
            (if a = sender
             then Add (getStake w asset sender) transferred
             else getStake w asset a)"
      by (simp add: s)
    from sumStakes_upd [OF this]
    have "sumStakes w' asset + unat ?old = sumStakes w asset + unat (?old + ?m)"
      by simp
    then have "sumStakes w' asset = sumStakes w asset + unat ?m"
      using old' by simp
    then show ?thesis
      using True inv' [of asset] tot' by (simp add: t)
  next
    case False
    then have "sumStakes w' c = sumStakes w c"
      by (intro sumStakes_frame) (simp add: s)
    then show ?thesis
      using False inv' [of c] by (simp add: t)
  qed
  then show ?thesis
    by (simp add: ledgerConsistent_iff)
qed

lemma ledgerConsistent_unstake:
  assumes inv: "ledgerConsistent w"
    and ex: "exact T V w (UnstakeCall sender asset h p)"
    and un: "unstake T V w sender asset h p = Inr w'"
  shows "ledgerConsistent w'"
proof -
  from unstake_Inr [OF un]
  obtain v sent ts' where v: "V sender h p = Some v"
    and tr: "unstakeTransfer T w sender asset (Ciphertext h v) = Inr (sent, ts')"
    and s: "\<forall>c a. getStake w' c a =
           (if c = asset \<and> a = sender
            then snd (tryDecrease (getStake w asset sender) (Ciphertext h v))
            else getStake w c a)"
    and t: "\<forall>c. getTotalStaked w' c =
           (if c = asset
            then snd (tryDecrease (getTotalStaked w asset) sent)
            else getTotalStaked w c)"
    by blast
  let ?sent = "decrypt sent"
  let ?wa = "decrypt (unstakeWithdrawAmount w sender asset (Ciphertext h v))"
  let ?old = "decrypt (getStake w asset sender)"
  let ?new = "decrypt (snd (tryDecrease (getStake w asset sender) (Ciphertext h v)))"
  let ?tot = "decrypt (getTotalStaked w asset)"
  have inv': "\<And>c. unat (decrypt (getTotalStaked w c)) = sumStakes w c"
    using inv by (simp add: ledgerConsistent_iff)
  have sent: "?sent = ?wa"
    using ex v tr by simp
  have wa: "?wa = (if v \<le> ?old then v else 0)"
    by (simp add: unstakeWithdrawAmount_def decreaseStake_eq fhe_defs)
  have wa_le: "?wa \<le> ?old"
    by (simp add: wa)
  have new: "unat ?new + unat ?wa = unat ?old"
    by (simp add: wa tryDecrease_eq unat_sub word_le_nat_alt)
  have old_le: "unat ?old \<le> unat ?tot"
    using stake_le_sumStakes [of w asset sender] inv' [of asset] by simp
  have "?wa \<le> ?tot"
    using wa_le old_le by (simp add: word_le_nat_alt)
  then have tot': "unat (decrypt (snd (tryDecrease (getTotalStaked w asset) sent))) + unat ?wa =
                     unat ?tot"
    by (simp add: sent tryDecrease_eq unat_sub word_le_nat_alt)
  have "unat (decrypt (getTotalStaked w' c)) = sumStakes w' c" for c
  proof (cases "c = asset")
    case True
    have "\<forall>a. getStake w' asset a =
            (if a = sender
             then snd (tryDecrease (getStake w asset sender) (Ciphertext h v))
             else getStake w asset a)"
      by (simp add: s)
    from sumStakes_upd [OF this]
    have "sumStakes w' asset + unat ?old = sumStakes w asset + unat ?new"
      by simp
    then have "sumStakes w' asset + unat ?wa = sumStakes w asset"
      using new by simp
    then show ?thesis
      using True inv' [of asset] tot' by (simp add: t)
  next
    case False
    then have "sumStakes w' c = sumStakes w c"
      by (intro sumStakes_frame) (simp add: s)
    then show ?thesis
      using False inv' [of c] by (simp add: t)
  qed
  then show ?thesis
    by (simp add: ledgerConsistent_iff)
qed

lemma ledgerConsistent_exec:
  assumes "ledgerConsistent w" and "exact T V w c"
  shows "ledgerConsistent (exec T V w c)"
proof (cases c)
  case (StakeCall sender asset h p)
  show ?thesis
    unfolding StakeCall
    by (cases rule: exec_stake_cases [of T V w sender asset h p])
      (use assms StakeCall ledgerConsistent_stake in auto)
next
  case (UnstakeCall sender asset h p)
  show ?thesis
    unfolding UnstakeCall
    by (cases rule: exec_unstake_cases [of T V w sender asset h p])
      (use assms UnstakeCall ledgerConsistent_unstake in auto)
qed

lemma ledgerConsistent_run:
  "ledgerConsistent w \<Longrightarrow> exactRun T V w calls \<Longrightarrow> ledgerConsistent (run T V w calls)"
  by (induction calls arbitrary: w) (simp_all add: run_Nil run_Cons ledgerConsistent_exec)

lemma ledgerConsistent_emptyVault: "ledgerConsistent (emptyVault self m u ts)"
  by (simp add: ledgerConsistent_def sumStakes_def getStake_def getTotalStaked_def emptyVault_def)

subsection \<open>The faithful token and custody\<close>

lemma sum_fun_upd:
  fixes f :: "address \<Rightarrow> nat"
  shows "(\<Sum>a\<in>UNIV. (f(s := x)) a) + f s = (\<Sum>a\<in>UNIV. f a) + x"
  using sum_upd [of s x f] by (simp add: fun_upd_def)

lemma two_le_sum:
  fixes f :: "address \<Rightarrow> nat"
  assumes "x \<noteq> y"
  shows "f x + f y \<le> (\<Sum>a\<in>UNIV. f a)"
proof -
  have "(\<Sum>a\<in>{x, y}. f a) \<le> (\<Sum>a\<in>UNIV. f a)"
    by (rule sum_mono2) simp_all
  then show ?thesis
    using assms by simp
qed

lemma move_Inl:
  assumes "move ts payer payee amount = Inl e"
  shows "balances ts payer = None \<and> e = ERC7984ZeroBalance payer"
  using assms by (auto simp: move_def Let_def split: option.splits)

lemma move_returns:
  assumes "balances ts payer \<noteq> None"
  shows "\<exists>moved ts'. move ts payer payee amount = Inr (moved, ts')"
  using assms by (auto simp: move_def Let_def split: option.splits)

lemma move_Inr:
  assumes "move ts payer payee amount = Inr (moved, ts')"
  shows "\<exists>b. balances ts payer = Some b \<and>
           moved = (if unat (decrypt amount) \<le> b then amount else Trivial 0) \<and>
           balances ts' =
             ((balances ts)(payer := Some (b - unat (decrypt moved))))
               (payee := Some (balanceOf (ts\<lparr>balances :=
                   (balances ts)(payer := Some (b - unat (decrypt moved)))\<rparr>) payee +
                 unat (decrypt moved))) \<and>
           operators ts' = operators ts"
proof (cases "balances ts payer")
  case None
  then show ?thesis
    using assms by (simp add: move_def)
next
  case (Some b)
  show ?thesis
  proof (cases "unat (decrypt amount) \<le> b")
    case True
    then show ?thesis
      using assms Some by (auto simp: move_def Let_def FHE_asEuint64_def)
  next
    case False
    then show ?thesis
      using assms Some by (auto simp: move_def Let_def FHE_asEuint64_def)
  qed
qed

lemma move_moved:
  assumes "move ts payer payee amount = Inr (moved, ts')"
  shows "decrypt moved =
           (if unat (decrypt amount) \<le> balanceOf ts payer then decrypt amount else 0)"
proof -
  from move_Inr [OF assms] obtain b where "balances ts payer = Some b"
    and "moved = (if unat (decrypt amount) \<le> b then amount else Trivial 0)"
    by blast
  then show ?thesis
    by (simp add: balanceOf_def)
qed

lemma move_le:
  assumes "move ts payer payee amount = Inr (moved, ts')"
  shows "unat (decrypt moved) \<le> balanceOf ts payer"
  by (simp add: move_moved [OF assms])

lemma move_balanceOf:
  assumes "move ts payer payee amount = Inr (moved, ts')"
  shows "balanceOf ts' =
           (let t = unat (decrypt moved);
                b1 = (balanceOf ts)(payer := balanceOf ts payer - t)
            in b1(payee := b1 payee + t))"
proof -
  from move_Inr [OF assms] obtain b where b: "balances ts payer = Some b"
    and bal: "balances ts' =
             ((balances ts)(payer := Some (b - unat (decrypt moved))))
               (payee := Some (balanceOf (ts\<lparr>balances :=
                   (balances ts)(payer := Some (b - unat (decrypt moved)))\<rparr>) payee +
                 unat (decrypt moved)))"
    by blast
  have "balanceOf ts' a =
          (let t = unat (decrypt moved);
               b1 = (balanceOf ts)(payer := balanceOf ts payer - t)
           in b1(payee := b1 payee + t)) a" for a
    by (simp add: balanceOf_def bal b Let_def)
  then show ?thesis
    by (rule ext)
qed

lemma move_payee_written:
  assumes "move ts payer payee amount = Inr (moved, ts')"
  shows "balances ts' payee \<noteq> None"
  using move_Inr [OF assms] by auto

lemma move_operators:
  assumes "move ts payer payee amount = Inr (moved, ts')"
  shows "operators ts' = operators ts"
  using move_Inr [OF assms] by blast

lemma move_to:
  assumes "move ts payer payee amount = Inr (moved, ts')" and "payer \<noteq> payee"
  shows "balanceOf ts' payee = balanceOf ts payee + unat (decrypt moved)"
  using assms(2) by (simp add: move_balanceOf [OF assms(1)] Let_def)

lemma move_from:
  assumes "move ts payer payee amount = Inr (moved, ts')" and "payer \<noteq> payee"
  shows "balanceOf ts' payer + unat (decrypt moved) = balanceOf ts payer"
  using assms(2) move_le [OF assms(1)] by (simp add: move_balanceOf [OF assms(1)] Let_def)

lemma move_supply:
  assumes "move ts payer payee amount = Inr (moved, ts')"
  shows "totalSupply ts' = totalSupply ts"
proof -
  let ?t = "unat (decrypt moved)"
  let ?b1 = "(balanceOf ts)(payer := balanceOf ts payer - ?t)"
  have le: "?t \<le> balanceOf ts payer"
    by (rule move_le [OF assms])
  have 1: "(\<Sum>a\<in>UNIV. ?b1 a) + balanceOf ts payer =
           (\<Sum>a\<in>UNIV. balanceOf ts a) + (balanceOf ts payer - ?t)"
    by (rule sum_fun_upd)
  have 2: "(\<Sum>a\<in>UNIV. (?b1(payee := ?b1 payee + ?t)) a) + ?b1 payee =
           (\<Sum>a\<in>UNIV. ?b1 a) + (?b1 payee + ?t)"
    by (rule sum_fun_upd)
  have "(\<Sum>a\<in>UNIV. (?b1(payee := ?b1 payee + ?t)) a) = (\<Sum>a\<in>UNIV. balanceOf ts a)"
    using 1 2 le by linarith
  then show ?thesis
    by (simp add: totalSupply_def move_balanceOf [OF assms] Let_def)
qed

lemma faithfulToken_simps:
  "isOperator faithfulToken ts holder spender = ((holder, spender) \<in> operators ts)"
  "confidentialTransferFrom faithfulToken ts caller payer to amount = move ts payer to amount"
  "confidentialTransfer faithfulToken ts caller to amount = move ts caller to amount"
  by (simp_all add: faithfulToken_def)

lemma all_Asset: "(\<forall>c. P c) = (P METH \<and> P MUSDT)"
  by (metis (full_types) Asset.exhaust)

lemma getToken_cases: "getToken w c = methToken w \<or> getToken w c = musdtToken w"
  by (simp add: getToken_def)

lemma sumStakes_le_held: "sumStakes w asset \<le> held w (getToken w asset)"
  by (cases asset) (simp_all add: held_def)

lemma held_credit:
  assumes "\<And>c. getToken w' c = getToken w c"
    and "sumStakes w' asset = sumStakes w asset + t"
    and "\<And>c. c \<noteq> asset \<Longrightarrow> sumStakes w' c = sumStakes w c"
  shows "held w' token = held w token + (if getToken w asset = token then t else 0)"
  using assms(2) assms(3) [of METH] assms(3) [of MUSDT]
  by (cases asset) (simp_all add: held_def assms(1))

lemma held_debit:
  assumes "\<And>c. getToken w' c = getToken w c"
    and "sumStakes w' asset + t = sumStakes w asset"
    and "\<And>c. c \<noteq> asset \<Longrightarrow> sumStakes w' c = sumStakes w c"
  shows "held w' token + (if getToken w asset = token then t else 0) = held w token"
  using assms(2) assms(3) [of METH] assms(3) [of MUSDT]
  by (cases asset) (simp_all add: held_def assms(1))

lemma custody_supply:
  assumes "custody w"
  shows "totalSupply (tokens w (getToken w asset)) < 2 ^ 64"
  using assms by (cases asset) (simp_all add: custody_def getToken_def)

text \<open>A deposit through the faithful token, in a state of custody.\<close>

lemma faithful_stake:
  assumes cu: "custody w"
    and ne: "sender \<noteq> vaultAddress w"
    and st: "stake faithfulToken V w sender asset h p = Inr w'"
  shows "\<exists>v t. V sender h p = Some v \<and>
           t = (if unat v \<le> balanceOf (tokens w (getToken w asset)) sender then v else 0) \<and>
           unat (decrypt (getStake w asset sender)) + unat t < 2 ^ 64 \<and>
           decrypt (getStake w' asset sender) = decrypt (getStake w asset sender) + t \<and>
           balanceOf (tokens w' (getToken w asset)) sender + unat t =
             balanceOf (tokens w (getToken w asset)) sender \<and>
           balances (tokens w' (getToken w asset)) (vaultAddress w) \<noteq> None \<and>
           custody w'"
proof -
  let ?tk = "getToken w asset"
  let ?ts = "tokens w ?tk"
  let ?self = "vaultAddress w"
  from stake_Inr [OF st]
  obtain v transferred ts' where v: "V sender h p = Some v"
    and tr: "stakeTransfer faithfulToken w sender asset (Ciphertext h v) = Inr (transferred, ts')"
    and s: "\<forall>c a. getStake w' c a =
           (if c = asset \<and> a = sender
            then Add (getStake w asset sender) transferred
            else getStake w c a)"
    and k: "tokens w' = (tokens w)(?tk := ts')"
    and f: "vaultAddress w' = vaultAddress w" "methToken w' = methToken w"
      "musdtToken w' = musdtToken w"
    by blast
  have mv: "move ?ts sender ?self (Ciphertext h v) = Inr (transferred, ts')"
    using tr by (simp add: stakeTransfer_def faithfulToken_simps)
  let ?t = "decrypt transferred"
  let ?old = "decrypt (getStake w asset sender)"
  have t: "?t = (if unat v \<le> balanceOf ?ts sender then v else 0)"
    using move_moved [OF mv] by simp
  have cu': "\<And>token. held w token \<le> balanceOf (tokens w token) ?self"
    "totalSupply (tokens w (methToken w)) < 2 ^ 64"
    "totalSupply (tokens w (musdtToken w)) < 2 ^ 64"
    using cu by (simp_all add: custody_def)
  have "unat ?old \<le> sumStakes w asset"
    by (rule stake_le_sumStakes)
  moreover have "sumStakes w asset \<le> held w ?tk"
    by (rule sumStakes_le_held)
  moreover have "unat ?t \<le> balanceOf ?ts sender"
    by (rule move_le [OF mv])
  moreover have "balanceOf ?ts sender + balanceOf ?ts ?self \<le> totalSupply ?ts"
    unfolding totalSupply_def using ne by (rule two_le_sum)
  ultimately have fits: "unat ?old + unat ?t < 2 ^ 64"
    using cu'(1) [of ?tk] custody_supply [OF cu, of asset] by linarith
  have sum': "unat (?old + ?t) = unat ?old + unat ?t"
    using fits by (simp add: unat_add_lem [THEN iffD1])
  have "\<forall>a. getStake w' asset a =
            (if a = sender then Add (getStake w asset sender) transferred
             else getStake w asset a)"
    by (simp add: s)
  from sumStakes_upd [OF this]
  have "sumStakes w' asset + unat ?old = sumStakes w asset + unat (?old + ?t)"
    by simp
  then have ss: "sumStakes w' asset = sumStakes w asset + unat ?t"
    using sum' by simp
  have other: "sumStakes w' c = sumStakes w c" if "c \<noteq> asset" for c
    using that by (intro sumStakes_frame) (simp add: s)
  have gt: "\<And>c. getToken w' c = getToken w c"
    by (simp add: getToken_def f)
  have hd: "\<And>token. held w' token = held w token + (if ?tk = token then unat ?t else 0)"
    using gt ss other by (rule held_credit)
  have bal_self: "balanceOf ts' ?self = balanceOf ?ts ?self + unat ?t"
    using mv ne by (rule move_to)
  have bal_sender: "balanceOf ts' sender + unat ?t = balanceOf ?ts sender"
    using mv ne by (rule move_from)
  have sup: "totalSupply ts' = totalSupply ?ts"
    by (rule move_supply [OF mv])
  have "held w' token \<le> balanceOf (tokens w' token) (vaultAddress w')" for token
    using cu'(1) [of token] bal_self by (auto simp: hd k f)
  moreover have "totalSupply (tokens w' (methToken w')) < 2 ^ 64"
    using cu'(2) sup by (auto simp: k f)
  moreover have "totalSupply (tokens w' (musdtToken w')) < 2 ^ 64"
    using cu'(3) sup by (auto simp: k f)
  ultimately have "custody w'"
    by (simp add: custody_def)
  moreover have "decrypt (getStake w' asset sender) = ?old + ?t"
    by (simp add: s)
  moreover have "balanceOf (tokens w' ?tk) sender + unat ?t = balanceOf ?ts sender"
    using bal_sender by (simp add: k)
  moreover have "balances (tokens w' ?tk) ?self \<noteq> None"
    using move_payee_written [OF mv] by (simp add: k)
  ultimately show ?thesis
    using v t fits by (intro exI [of _ v] exI [of _ ?t]) simp
qed

text \<open>A withdrawal through the faithful token, in a state of custody.\<close>

lemma faithful_unstake:
  assumes cu: "custody w"
    and ne: "sender \<noteq> vaultAddress w"
    and un: "unstake faithfulToken V w sender asset h p = Inr w'"
  shows "\<exists>v t. V sender h p = Some v \<and>
           t = (if v \<le> decrypt (getStake w asset sender) then v else 0) \<and>
           unat (decrypt (getStake w' asset sender)) + unat t =
             unat (decrypt (getStake w asset sender)) \<and>
           balanceOf (tokens w' (getToken w asset)) sender =
             balanceOf (tokens w (getToken w asset)) sender + unat t \<and>
           custody w'"
proof -
  let ?tk = "getToken w asset"
  let ?ts = "tokens w ?tk"
  let ?self = "vaultAddress w"
  from unstake_Inr [OF un]
  obtain v sent ts' where v: "V sender h p = Some v"
    and tr: "unstakeTransfer faithfulToken w sender asset (Ciphertext h v) = Inr (sent, ts')"
    and s: "\<forall>c a. getStake w' c a =
           (if c = asset \<and> a = sender
            then snd (tryDecrease (getStake w asset sender) (Ciphertext h v))
            else getStake w c a)"
    and k: "tokens w' = (tokens w)(?tk := ts')"
    and f: "vaultAddress w' = vaultAddress w" "methToken w' = methToken w"
      "musdtToken w' = musdtToken w"
    by blast
  let ?wa = "unstakeWithdrawAmount w sender asset (Ciphertext h v)"
  have mv: "move ?ts ?self sender ?wa = Inr (sent, ts')"
    using tr by (simp add: unstakeTransfer_def faithfulToken_simps)
  let ?old = "decrypt (getStake w asset sender)"
  let ?new = "decrypt (snd (tryDecrease (getStake w asset sender) (Ciphertext h v)))"
  let ?t = "if v \<le> ?old then v else 0"
  have wa: "decrypt ?wa = ?t"
    by (simp add: unstakeWithdrawAmount_def decreaseStake_eq fhe_defs)
  have cu': "\<And>token. held w token \<le> balanceOf (tokens w token) ?self"
    "totalSupply (tokens w (methToken w)) < 2 ^ 64"
    "totalSupply (tokens w (musdtToken w)) < 2 ^ 64"
    using cu by (simp_all add: custody_def)
  have new: "unat ?new + unat ?t = unat ?old"
    by (simp add: tryDecrease_eq unat_sub word_le_nat_alt)
  have "unat ?t \<le> unat ?old"
    by (simp add: word_le_nat_alt)
  moreover have "unat ?old \<le> sumStakes w asset"
    by (rule stake_le_sumStakes)
  moreover have "sumStakes w asset \<le> held w ?tk"
    by (rule sumStakes_le_held)
  ultimately have covered: "unat (decrypt ?wa) \<le> balanceOf ?ts ?self"
    using cu'(1) [of ?tk] unfolding wa by linarith
  then have moved: "decrypt sent = ?t"
    using move_moved [OF mv] by (simp add: wa)
  have ne': "?self \<noteq> sender"
    using ne by simp
  have bal_sender: "balanceOf ts' sender = balanceOf ?ts sender + unat ?t"
    using move_to [OF mv ne'] by (simp add: moved)
  have bal_self: "balanceOf ts' ?self + unat ?t = balanceOf ?ts ?self"
    using move_from [OF mv ne'] by (simp add: moved)
  have sup: "totalSupply ts' = totalSupply ?ts"
    by (rule move_supply [OF mv])
  have "\<forall>a. getStake w' asset a =
            (if a = sender
             then snd (tryDecrease (getStake w asset sender) (Ciphertext h v))
             else getStake w asset a)"
    by (simp add: s)
  from sumStakes_upd [OF this]
  have "sumStakes w' asset + unat ?old = sumStakes w asset + unat ?new"
    by simp
  then have ss: "sumStakes w' asset + unat ?t = sumStakes w asset"
    using new by linarith
  have other: "sumStakes w' c = sumStakes w c" if "c \<noteq> asset" for c
    using that by (intro sumStakes_frame) (simp add: s)
  have gt: "\<And>c. getToken w' c = getToken w c"
    by (simp add: getToken_def f)
  have hd: "\<And>token. held w' token + (if ?tk = token then unat ?t else 0) = held w token"
    using gt ss other by (rule held_debit)
  have "held w' token \<le> balanceOf (tokens w' token) (vaultAddress w')" for token
  proof (cases "?tk = token")
    case True
    then show ?thesis
      using cu'(1) [of token] bal_self hd [of token] by (auto simp: k f)
  next
    case False
    then show ?thesis
      using cu'(1) [of token] hd [of token] by (auto simp: k f)
  qed
  moreover have "totalSupply (tokens w' (methToken w')) < 2 ^ 64"
    using cu'(2) sup by (auto simp: k f)
  moreover have "totalSupply (tokens w' (musdtToken w')) < 2 ^ 64"
    using cu'(3) sup by (auto simp: k f)
  ultimately have "custody w'"
    by (simp add: custody_def)
  moreover have "unat (decrypt (getStake w' asset sender)) + unat ?t = unat ?old"
    using new by (simp add: s)
  moreover have "balanceOf (tokens w' ?tk) sender = balanceOf ?ts sender + unat ?t"
    using bal_sender by (simp add: k)
  ultimately show ?thesis
    using v by (intro exI [of _ v] exI [of _ ?t]) simp
qed

lemma frame_exec:
  "vaultAddress (exec T V w c) = vaultAddress w \<and>
   methToken (exec T V w c) = methToken w \<and>
   musdtToken (exec T V w c) = musdtToken w"
proof (cases c)
  case (StakeCall sender asset h p)
  show ?thesis
    unfolding StakeCall
    by (cases rule: exec_stake_cases [of T V w sender asset h p])
      (use stake_Inr [of T V w sender asset h p] in auto)
next
  case (UnstakeCall sender asset h p)
  show ?thesis
    unfolding UnstakeCall
    by (cases rule: exec_unstake_cases [of T V w sender asset h p])
      (use unstake_Inr [of T V w sender asset h p] in auto)
qed

lemma custody_exec:
  assumes "custody w" and "callSender c \<noteq> vaultAddress w"
  shows "custody (exec faithfulToken V w c)"
proof (cases c)
  case (StakeCall sender asset h p)
  show ?thesis
    unfolding StakeCall
    by (cases rule: exec_stake_cases [of faithfulToken V w sender asset h p])
      (use assms StakeCall faithful_stake [of w sender V asset h p] in auto)
next
  case (UnstakeCall sender asset h p)
  show ?thesis
    unfolding UnstakeCall
    by (cases rule: exec_unstake_cases [of faithfulToken V w sender asset h p])
      (use assms UnstakeCall faithful_unstake [of w sender V asset h p] in auto)
qed

lemma custody_run:
  "custody w \<Longrightarrow> external (vaultAddress w) calls \<Longrightarrow>
   custody (run faithfulToken V w calls) \<and>
   vaultAddress (run faithfulToken V w calls) = vaultAddress w"
proof (induction calls arbitrary: w)
  case Nil
  then show ?case by (simp add: run_Nil)
next
  case (Cons c cs)
  have "custody (exec faithfulToken V w c)"
    using Cons.prems by (simp add: custody_exec)
  moreover have "vaultAddress (exec faithfulToken V w c) = vaultAddress w"
    by (simp add: frame_exec)
  ultimately show ?case
    using Cons.IH [of "exec faithfulToken V w c"] Cons.prems by (simp add: run_Cons)
qed

lemma custody_emptyVault:
  assumes "totalSupply (ts m) < 2 ^ 64" and "totalSupply (ts u) < 2 ^ 64"
  shows "custody (emptyVault self m u ts)"
  using assms
  by (simp add: custody_def held_def sumStakes_def getStake_def emptyVault_def)

lemma exec_stake_Inr:
  "stake T V w sender asset h p = Inr w' \<Longrightarrow> exec T V w (StakeCall sender asset h p) = w'"
  by (simp add: transact_def)

lemma exec_stake_Inl:
  "stake T V w sender asset h p = Inl e \<Longrightarrow> exec T V w (StakeCall sender asset h p) = w"
  by (simp add: transact_def)

lemma exec_unstake_Inr:
  "unstake T V w sender asset h p = Inr w' \<Longrightarrow> exec T V w (UnstakeCall sender asset h p) = w'"
  by (simp add: transact_def)

lemma round_trip_custody:
  assumes cu: "custody w"
    and ne: "sender \<noteq> vaultAddress w"
    and v: "V sender h p = Some a"
    and v': "V sender h' p' = Some a"
    and op: "isOperator faithfulToken (tokens w (getToken w asset)) sender (vaultAddress w)"
    and le: "unat a \<le> balanceOf (tokens w (getToken w asset)) sender"
  shows "decrypt (getStake
           (exec faithfulToken V (exec faithfulToken V w (StakeCall sender asset h p))
              (UnstakeCall sender asset h' p')) asset sender) =
           decrypt (getStake w asset sender) \<and>
         balanceOf (tokens
           (exec faithfulToken V (exec faithfulToken V w (StakeCall sender asset h p))
              (UnstakeCall sender asset h' p')) (getToken w asset)) sender =
           balanceOf (tokens w (getToken w asset)) sender \<and>
         (balances (tokens w (getToken w asset)) sender \<noteq> None \<longrightarrow>
          (\<exists>w1 w2.
             stake faithfulToken V w sender asset h p = Inr w1 \<and>
             unstake faithfulToken V w1 sender asset h' p' = Inr w2 \<and>
             decrypt (getStake w1 asset sender) = decrypt (getStake w asset sender) + a \<and>
             balanceOf (tokens w1 (getToken w asset)) sender + unat a =
               balanceOf (tokens w (getToken w asset)) sender \<and>
             decrypt (getStake w2 asset sender) = decrypt (getStake w asset sender) \<and>
             balanceOf (tokens w2 (getToken w asset)) sender =
               balanceOf (tokens w (getToken w asset)) sender))"
proof (cases "balances (tokens w (getToken w asset)) sender")
  case None
  let ?tk = "getToken w asset"
  let ?old = "decrypt (getStake w asset sender)"
  have "stakeTransfer faithfulToken w sender asset (Ciphertext h a) =
          Inl (ERC7984ZeroBalance sender)"
    using None by (simp add: stakeTransfer_def faithfulToken_simps move_def)
  from stake_reverts [where V = V and h = h and p = p, OF op v this]
  have w1: "exec faithfulToken V w (StakeCall sender asset h p) = w"
    by (rule exec_stake_Inl)
  have "balanceOf (tokens w ?tk) sender = 0"
    using None by (simp add: balanceOf_def)
  then have a0: "a = 0"
    using le by (simp add: unat_eq_zero)
  have "decrypt (getStake (exec faithfulToken V w (UnstakeCall sender asset h' p')) asset sender)
          = ?old \<and>
        balanceOf (tokens (exec faithfulToken V w (UnstakeCall sender asset h' p')) ?tk) sender
          = balanceOf (tokens w ?tk) sender"
  proof (cases rule: exec_unstake_cases [of faithfulToken V w sender asset h' p'])
    case reverted
    then show ?thesis by simp
  next
    case (ran w2)
    from faithful_unstake [OF cu ne ran(1)] v' a0
    have "unat (decrypt (getStake w2 asset sender)) = unat ?old"
      and "balanceOf (tokens w2 ?tk) sender = balanceOf (tokens w ?tk) sender"
      by auto
    then show ?thesis
      using ran(2) by (simp add: word_unat_eq_iff)
  qed
  then show ?thesis
    unfolding w1 using None by blast
next
  case (Some b)
  let ?tk = "getToken w asset"
  let ?old = "decrypt (getStake w asset sender)"
  obtain moved ts1 where "move (tokens w ?tk) sender (vaultAddress w) (Ciphertext h a) =
      Inr (moved, ts1)"
    using move_returns [of "tokens w ?tk" sender] Some by fastforce
  then have "stakeTransfer faithfulToken w sender asset (Ciphertext h a) = Inr (moved, ts1)"
    by (simp add: stakeTransfer_def faithfulToken_simps)
  from stake_valid [where V = V and h = h and p = p, OF op v this]
  obtain w1 where st: "stake faithfulToken V w sender asset h p = Inr w1"
    by blast
  from stake_Inr [OF st]
  have f1: "vaultAddress w1 = vaultAddress w" "methToken w1 = methToken w"
    "musdtToken w1 = musdtToken w"
    by auto
  have tk1: "getToken w1 asset = ?tk"
    by (simp add: getToken_def f1)
  from faithful_stake [OF cu ne st] v le
  have fits: "unat ?old + unat a < 2 ^ 64"
    and s1: "decrypt (getStake w1 asset sender) = ?old + a"
    and b1: "balanceOf (tokens w1 ?tk) sender + unat a = balanceOf (tokens w ?tk) sender"
    and written: "balances (tokens w1 ?tk) (vaultAddress w) \<noteq> None"
    and cu1: "custody w1"
    by auto
  obtain sent ts2 where
    "move (tokens w1 ?tk) (vaultAddress w) sender
       (unstakeWithdrawAmount w1 sender asset (Ciphertext h' a)) = Inr (sent, ts2)"
    using move_returns [OF written] by blast
  then have "unstakeTransfer faithfulToken w1 sender asset (Ciphertext h' a) = Inr (sent, ts2)"
    by (simp add: unstakeTransfer_def faithfulToken_simps tk1 f1)
  from unstake_valid [where V = V and h = h' and p = p', OF v' this]
  obtain w2 where un: "unstake faithfulToken V w1 sender asset h' p' = Inr w2"
    by blast
  have ne1: "sender \<noteq> vaultAddress w1"
    using ne by (simp add: f1)
  have sum1: "unat (?old + a) = unat ?old + unat a"
    using fits by (simp add: unat_add_lem [THEN iffD1])
  have covered: "a \<le> decrypt (getStake w1 asset sender)"
    by (simp add: s1 word_le_nat_alt sum1)
  from faithful_unstake [OF cu1 ne1 un] v' covered
  have s2: "unat (decrypt (getStake w2 asset sender)) + unat a =
              unat (decrypt (getStake w1 asset sender))"
    and b2: "balanceOf (tokens w2 ?tk) sender = balanceOf (tokens w1 ?tk) sender + unat a"
    by (auto simp: tk1)
  have "unat (decrypt (getStake w2 asset sender)) = unat ?old"
    using s2 sum1 by (simp add: s1)
  then have r1: "decrypt (getStake w2 asset sender) = ?old"
    by (simp add: word_unat_eq_iff)
  have r2: "balanceOf (tokens w2 ?tk) sender = balanceOf (tokens w ?tk) sender"
    using b1 b2 by simp
  have e: "exec faithfulToken V (exec faithfulToken V w (StakeCall sender asset h p))
              (UnstakeCall sender asset h' p') = w2"
    by (simp only: exec_stake_Inr [OF st] exec_unstake_Inr [OF un])
  show ?thesis
    unfolding e using st un s1 b1 r1 r2 by blast
qed

subsection \<open>Where a grant comes from\<close>

lemma frame_run:
  "vaultAddress (run T V w calls) = vaultAddress w \<and>
   methToken (run T V w calls) = methToken w \<and>
   musdtToken (run T V w calls) = musdtToken w"
  by (induction calls arbitrary: w) (simp_all add: run_Nil run_Cons frame_exec)

lemma getToken_run: "getToken (run T V w calls) c = getToken w c"
  by (simp add: getToken_def frame_run)

lemma run_snoc: "run T V w (cs @ [c]) = exec T V (run T V w cs) c"
  by (simp add: run_def)

text \<open>The grants one call adds are for the vault, for the caller on its new stake, and for the
  token on the amount handed to it.\<close>

lemma acl_exec:
  assumes "(x, who) \<in> acl (exec T V w c)"
  shows "(x, who) \<in> acl w \<or> who = vaultAddress w \<or>
         getStake (exec T V w c) (callAsset c) who = x \<or>
         (who = getToken w (callAsset c) \<and> handedToToken V w c = Some x)"
proof (cases c)
  case (StakeCall sender asset h p)
  show ?thesis
  proof (cases rule: exec_stake_cases [of T V w sender asset h p])
    case reverted
    then show ?thesis
      using assms StakeCall by simp
  next
    case (ran w')
    from stake_Inr [OF ran(1)]
    obtain v where v: "V sender h p = Some v"
      and a: "acl w' =
           insert (getTotalStaked w' asset, vaultAddress w)
            (insert (getStake w' asset sender, sender)
              (insert (getStake w' asset sender, vaultAddress w)
                (insert (Ciphertext h v, getToken w asset) (acl w))))"
      by blast
    have "(x, who) \<in> acl w'"
      using assms StakeCall ran(2) by simp
    then show ?thesis
      unfolding a using StakeCall ran(2) v by auto
  qed
next
  case (UnstakeCall sender asset h p)
  show ?thesis
  proof (cases rule: exec_unstake_cases [of T V w sender asset h p])
    case reverted
    then show ?thesis
      using assms UnstakeCall by simp
  next
    case (ran w')
    from unstake_Inr [OF ran(1)]
    obtain v where v: "V sender h p = Some v"
      and a: "acl w' =
           insert (getTotalStaked w' asset, vaultAddress w)
            (insert (getStake w' asset sender, sender)
              (insert (getStake w' asset sender, vaultAddress w)
                (insert (unstakeWithdrawAmount w sender asset (Ciphertext h v), getToken w asset)
                   (acl w))))"
      by blast
    have "(x, who) \<in> acl w'"
      using assms UnstakeCall ran(2) by simp
    then show ?thesis
      unfolding a using UnstakeCall ran(2) v by auto
  qed
qed

lemma grants_origin:
  assumes "(x, who) \<in> acl (run T V w calls)"
  shows "(x, who) \<in> acl w \<or> who = vaultAddress w \<or>
         (\<exists>n c. n \<le> length calls \<and> getStake (run T V w (take n calls)) c who = x) \<or>
         (\<exists>n. n < length calls \<and> who = getToken w (callAsset (calls ! n)) \<and>
              handedToToken V (run T V w (take n calls)) (calls ! n) = Some x)"
  using assms
proof (induction calls rule: rev_induct)
  case Nil
  then show ?case by (simp add: run_Nil)
next
  case (snoc c cs)
  let ?w = "run T V w cs"
  from snoc.prems have "(x, who) \<in> acl (exec T V ?w c)"
    by (simp add: run_snoc)
  from acl_exec [OF this]
  consider (old) "(x, who) \<in> acl ?w"
    | (vault) "who = vaultAddress w"
    | (stake) "getStake (exec T V ?w c) (callAsset c) who = x"
    | (token) "who = getToken w (callAsset c)" "handedToToken V ?w c = Some x"
    by (auto simp: frame_run getToken_run)
  then show ?case
  proof cases
    case old
    from snoc.IH [OF old]
    consider "(x, who) \<in> acl w" | "who = vaultAddress w"
      | n c' where "n \<le> length cs" "getStake (run T V w (take n cs)) c' who = x"
      | n where "n < length cs" "who = getToken w (callAsset (cs ! n))"
          "handedToToken V (run T V w (take n cs)) (cs ! n) = Some x"
      by blast
    then show ?thesis
    proof cases
      case 1
      then show ?thesis by simp
    next
      case 2
      then show ?thesis by simp
    next
      case (3 n c')
      then have "n \<le> length (cs @ [c]) \<and>
                 getStake (run T V w (take n (cs @ [c]))) c' who = x"
        by simp
      then show ?thesis by blast
    next
      case (4 n)
      then have "n < length (cs @ [c]) \<and> who = getToken w (callAsset ((cs @ [c]) ! n)) \<and>
                 handedToToken V (run T V w (take n (cs @ [c]))) ((cs @ [c]) ! n) = Some x"
        by (simp add: nth_append)
      then show ?thesis by blast
    qed
  next
    case vault
    then show ?thesis by simp
  next
    case stake
    then have "length (cs @ [c]) \<le> length (cs @ [c]) \<and>
               getStake (run T V w (take (length (cs @ [c])) (cs @ [c]))) (callAsset c) who = x"
      by (simp add: run_snoc)
    then show ?thesis by blast
  next
    case token
    then have "length cs < length (cs @ [c]) \<and>
               who = getToken w (callAsset ((cs @ [c]) ! length cs)) \<and>
               handedToToken V (run T V w (take (length cs) (cs @ [c]))) ((cs @ [c]) ! length cs)
                 = Some x"
      by simp
    then show ?thesis by blast
  qed
qed

lemmas eval_defs = run_def transact_def stake_def unstake_def Let_def FHE_fromExternal_def
  fhe_defs getToken_def getStake_def getTotalStaked_def updateStakeStorage_def increaseStake_def
  decreaseStake_def increaseTotal_def decreaseTotal_def emptyVault_def faithfulToken_def
  move_def balanceOf_def fundedToken_def exampleVerifier_def alice_def bob_def vaultAt_def
  methAt_def musdtAt_def reportingToken_def cappingToken_def stakeTransfer_def
  unstakeWithdrawAmount_def unstakeTransfer_def freshWorld_def stakedWorld_def
  reportedWorld_def cappedWorld_def

lemma totalSupply_fundedToken: "totalSupply fundedToken = 1000000"
proof -
  have "(\<Sum>a\<in>UNIV. balanceOf fundedToken a) = balanceOf fundedToken alice"
    by (rule sum_single) (simp add: fundedToken_def balanceOf_def)
  then show ?thesis
    by (simp add: totalSupply_def fundedToken_def balanceOf_def)
qed

subsection \<open>The scenario of the test suite\<close>

text \<open>
  \<^verbatim>\<open>stakes and unstakes encrypted mETH\<close>: after the faucet and \<^verbatim>\<open>setOperator\<close>, \<open>alice\<close>
  stakes 500000: her stake decrypts to 500000 and her wallet to 500000. She unstakes
  500000: her stake decrypts to 0 and her wallet to 1000000.
\<close>

lemma test_stakes_and_unstakes_meth:
  "decrypt (getEncryptedStake stakedWorld alice METH) = 500000"
  "balanceOf (tokens stakedWorld methAt) alice = 500000"
  "decrypt (getEncryptedStake
     (exec faithfulToken exampleVerifier stakedWorld (UnstakeCall alice METH 500000 [1]))
     alice METH) = 0"
  "balanceOf (tokens
     (exec faithfulToken exampleVerifier stakedWorld (UnstakeCall alice METH 500000 [1]))
     methAt) alice = 1000000"
  by (simp_all add: eval_defs getEncryptedStake_def)

subsection \<open>The claims\<close>

text \<open>
  Claim C1, as stated, fails: \<^verbatim>\<open>unstake\<close> calls the token's \<^verbatim>\<open>confidentialTransfer\<close> also
  when the request exceeds the stake (for an amount that decrypts to 0), and the transaction
  reverts when that call reverts. Amended: an \<^verbatim>\<open>unstake\<close> whose validated amount exceeds
  the stake of the caller raises no error of the vault's own (neither the error of the
  validation nor \<^verbatim>\<open>NebulaVaultOperatorMissing\<close>); the amount it hands to the token for the
  transfer to the caller, the argument of \<^verbatim>\<open>confidentialTransfer\<close>, decrypts to 0; the stake
  stored for the caller after the transaction, reverted or not, decrypts to the same value
  as before; and the transaction reverts exactly when the token's \<^verbatim>\<open>confidentialTransfer\<close>
  reverts, with the error of the token: when the token returns, the call succeeds and
  keeps the state of the token that the transfer returned.
\<close>

theorem unstake_exceeding_stake:
  assumes "V sender h p = Some v" and "decrypt (getStake w asset sender) < v"
  shows "decrypt (unstakeWithdrawAmount w sender asset (Ciphertext h v)) = 0 \<and>
         unstake T V w sender asset h p \<noteq> Inl InvalidProof \<and>
         unstake T V w sender asset h p \<noteq> Inl NebulaVaultOperatorMissing \<and>
         decrypt (getStake (exec T V w (UnstakeCall sender asset h p)) asset sender) =
           decrypt (getStake w asset sender) \<and>
         (case unstakeTransfer T w sender asset (Ciphertext h v) of
            Inl e \<Rightarrow> unstake T V w sender asset h p = Inl (TokenReverted e)
          | Inr r \<Rightarrow>
              (\<exists>w'. unstake T V w sender asset h p = Inr w' \<and>
                 transact (\<lambda>w. unstake T V w sender asset h p) w = (None, w') \<and>
                 decrypt (getStake w' asset sender) = decrypt (getStake w asset sender) \<and>
                 tokens w' (getToken w asset) = snd r))"
proof -
  have refused: "\<not> v \<le> decrypt (getStake w asset sender)"
    using assms(2) by simp
  have zero: "decrypt (unstakeWithdrawAmount w sender asset (Ciphertext h v)) = 0"
    using refused by (simp add: unstakeWithdrawAmount_def decreaseStake_eq fhe_defs)
  show ?thesis
  proof (cases "unstakeTransfer T w sender asset (Ciphertext h v)")
    case (Inl e)
    have r: "unstake T V w sender asset h p = Inl (TokenReverted e)"
      using assms(1) Inl by (rule unstake_reverts)
    then show ?thesis
      using zero Inl by (simp add: transact_def)
  next
    case (Inr r)
    then have tr: "unstakeTransfer T w sender asset (Ciphertext h v) = Inr (fst r, snd r)"
      by simp
    from unstake_valid [where V = V and h = h and p = p, OF assms(1) tr]
    obtain w' where eq: "unstake T V w sender asset h p = Inr w'"
      and s: "\<forall>c a. getStake w' c a =
           (if c = asset \<and> a = sender
            then snd (tryDecrease (getStake w asset sender) (Ciphertext h v))
            else getStake w c a)"
      and k: "tokens w' = (tokens w)(getToken w asset := snd r)"
      by blast
    have same: "decrypt (getStake w' asset sender) = decrypt (getStake w asset sender)"
      using refused by (simp add: s tryDecrease_eq)
    show ?thesis
      using zero Inr eq same k by (simp add: transact_def)
  qed
qed

text \<open>
  After staking 500000, \<open>alice\<close> asks for 600000 (spec 8, second scenario): the vault holds
  500000 on the token, the transfer of 0 returns, and the call succeeds.
\<close>

theorem unstake_exceeding_stake_witness:
  "exampleVerifier alice 600000 [1] = Some 600000 \<and>
   decrypt (getStake stakedWorld METH alice) < 600000 \<and>
   decrypt (unstakeWithdrawAmount stakedWorld alice METH (Ciphertext 600000 600000)) = 0 \<and>
   decrypt (getStake
     (exec faithfulToken exampleVerifier stakedWorld (UnstakeCall alice METH 600000 [1]))
     METH alice) = 500000 \<and>
   (\<exists>w'. unstake faithfulToken exampleVerifier stakedWorld alice METH 600000 [1] = Inr w' \<and>
      decrypt (getStake w' METH alice) = 500000)"
proof -
  have v: "exampleVerifier alice 600000 [1] = Some 600000"
    by (simp add: exampleVerifier_def)
  have less: "decrypt (getStake stakedWorld METH alice) < 600000"
    by (simp add: eval_defs)
  have old: "decrypt (getStake stakedWorld METH alice) = 500000"
    by (simp add: eval_defs)
  have "\<exists>r. unstakeTransfer faithfulToken stakedWorld alice METH (Ciphertext 600000 600000) = Inr r"
    by (simp add: eval_defs)
  then obtain r where
    r: "unstakeTransfer faithfulToken stakedWorld alice METH (Ciphertext 600000 600000) = Inr r"
    by blast
  show ?thesis
    using unstake_exceeding_stake [where V = exampleVerifier and h = 600000 and p = "[1]",
        OF v less, of faithfulToken] v less
    by (simp add: r old) blast
qed

text \<open>
  The counterexample to C1 as stated: in the vault right after deployment the stake of
  \<open>bob\<close> is 0 and the balance of the vault on the token has never been written. \<open>bob\<close>
  asks for 5 with a valid proof, and the transaction reverts with the token's
  \<^verbatim>\<open>ERC7984ZeroBalance\<close> for the address of the vault.
\<close>

theorem unstake_exceeding_stake_counterexample:
  "exampleVerifier bob 5 [1] = Some 5 \<and>
   decrypt (getStake freshWorld METH bob) < 5 \<and>
   transact (\<lambda>w. unstake faithfulToken exampleVerifier w bob METH 5 [1]) freshWorld =
     (Some (TokenReverted (ERC7984ZeroBalance vaultAt)), freshWorld)"
  by (simp add: eval_defs)

text \<open>
  Claim C3. A \<^verbatim>\<open>stake\<close> that passes the operator check and the proof validation, and whose
  \<^verbatim>\<open>confidentialTransferFrom\<close> returns, succeeds and credits both the stake of the caller
  and the total of the asset with the amount the token returned from
  \<^verbatim>\<open>confidentialTransferFrom\<close>: each stored value is the result of \<open>tryIncrease\<close> on the
  old value and that amount, its flag dropped, so it decrypts to the old value plus the
  amount moved (64-bit addition). The event carries the same amount.
\<close>

theorem stake_credits_amount_moved:
  assumes "isOperator T (tokens w (getToken w asset)) sender (vaultAddress w)"
    and "V sender h p = Some v"
    and "stakeTransfer T w sender asset (Ciphertext h v) = Inr (transferred, ts')"
  shows "\<exists>w'. stake T V w sender asset h p = Inr w' \<and>
           getStake w' asset sender =
             snd (tryIncrease (getStake w asset sender) transferred) \<and>
           getTotalStaked w' asset =
             snd (tryIncrease (getTotalStaked w asset) transferred) \<and>
           decrypt (getStake w' asset sender) =
             decrypt (getStake w asset sender) + decrypt transferred \<and>
           decrypt (getTotalStaked w' asset) =
             decrypt (getTotalStaked w asset) + decrypt transferred \<and>
           events w' = events w @ [Staked sender asset transferred]"
proof -
  from stake_valid [where V = V and h = h and p = p, OF assms]
  obtain w' where eq: "stake T V w sender asset h p = Inr w'"
    and s: "\<forall>c a. getStake w' c a =
           (if c = asset \<and> a = sender
            then Add (getStake w asset sender) transferred
            else getStake w c a)"
    and t: "\<forall>c. getTotalStaked w' c =
           (if c = asset
            then Add (getTotalStaked w asset) transferred
            else getTotalStaked w c)"
    and e: "events w' = events w @ [Staked sender asset transferred]"
    by blast
  show ?thesis
    using eq e by (simp add: s t tryIncrease_eq)
qed

text \<open>
  The stake of \<open>alice\<close> and the total are 4. She asks to stake 10 and the token moves 4:
  the stake and the total are credited with what was moved and go to 8, not with what was
  asked.
\<close>

theorem stake_credits_amount_moved_witness:
  "isOperator (cappingToken 4) (tokens cappedWorld (getToken cappedWorld METH)) alice
     (vaultAddress cappedWorld) \<and>
   exampleVerifier alice 10 [1] = Some 10 \<and>
   stakeTransfer (cappingToken 4) cappedWorld alice METH (Ciphertext 10 10) =
     Inr (Trivial 4, ()) \<and>
   decrypt (getStake cappedWorld METH alice) = 4 \<and>
   decrypt (getTotalStaked cappedWorld METH) = 4 \<and>
   (\<exists>w'. stake (cappingToken 4) exampleVerifier cappedWorld alice METH 10 [1] = Inr w' \<and>
      decrypt (getStake w' METH alice) = 8 \<and>
      decrypt (getTotalStaked w' METH) = 8 \<and>
      events w' = events cappedWorld @ [Staked alice METH (Trivial 4)])"
proof -
  have op: "isOperator (cappingToken 4) (tokens cappedWorld (getToken cappedWorld METH)) alice
     (vaultAddress cappedWorld)"
    by (simp add: cappingToken_def)
  have v: "exampleVerifier alice 10 [1] = Some 10"
    by (simp add: exampleVerifier_def)
  have tr: "stakeTransfer (cappingToken 4) cappedWorld alice METH (Ciphertext 10 10) =
     Inr (Trivial 4, ())"
    by (simp add: stakeTransfer_def cappingToken_def FHE_asEuint64_def)
  have s: "decrypt (getStake cappedWorld METH alice) = 4"
    by (simp add: eval_defs)
  have t: "decrypt (getTotalStaked cappedWorld METH) = 4"
    by (simp add: eval_defs)
  show ?thesis
    using stake_credits_amount_moved [where V = exampleVerifier and h = 10 and p = "[1]",
        OF op v tr] op v tr
    by (simp add: s t) blast
qed

text \<open>
  Claim C4, as stated, fails: the total does not decrease by the amount the token reports
  as sent when that amount exceeds the stored total (\<open>tryDecrease\<close> then leaves the total
  as it is). Amended: when the stake of the caller covers the validated amount and the
  token's \<^verbatim>\<open>confidentialTransfer\<close> returns, the call succeeds, the stored stake decreases by
  that amount whatever the token reports as sent, and the total decreases by the amount
  the token reports as sent when the total covers it, and is left unchanged otherwise.
  When the token's \<^verbatim>\<open>confidentialTransfer\<close> reverts, the call reverts with the error of the
  token.
\<close>

theorem unstake_sufficient_stake:
  assumes "V sender h p = Some v" and "v \<le> decrypt (getStake w asset sender)"
  shows "case unstakeTransfer T w sender asset (Ciphertext h v) of
           Inl e \<Rightarrow> unstake T V w sender asset h p = Inl (TokenReverted e)
         | Inr r \<Rightarrow>
             (\<exists>w'. unstake T V w sender asset h p = Inr w' \<and>
                unat (decrypt (getStake w' asset sender)) + unat v =
                  unat (decrypt (getStake w asset sender)) \<and>
                (if decrypt (fst r) \<le> decrypt (getTotalStaked w asset)
                 then unat (decrypt (getTotalStaked w' asset)) + unat (decrypt (fst r)) =
                      unat (decrypt (getTotalStaked w asset))
                 else decrypt (getTotalStaked w' asset) = decrypt (getTotalStaked w asset)))"
proof (cases "unstakeTransfer T w sender asset (Ciphertext h v)")
  case (Inl e)
  have "unstake T V w sender asset h p = Inl (TokenReverted e)"
    using assms(1) Inl by (rule unstake_reverts)
  then show ?thesis
    using Inl by simp
next
  case (Inr r)
  then have tr: "unstakeTransfer T w sender asset (Ciphertext h v) = Inr (fst r, snd r)"
    by simp
  from unstake_valid [where V = V and h = h and p = p, OF assms(1) tr]
  obtain w' where eq: "unstake T V w sender asset h p = Inr w'"
    and s: "\<forall>c a. getStake w' c a =
           (if c = asset \<and> a = sender
            then snd (tryDecrease (getStake w asset sender) (Ciphertext h v))
            else getStake w c a)"
    and t: "\<forall>c. getTotalStaked w' c =
           (if c = asset
            then snd (tryDecrease (getTotalStaked w asset) (fst r))
            else getTotalStaked w c)"
    by blast
  have "unat (decrypt (getStake w' asset sender)) + unat v =
          unat (decrypt (getStake w asset sender))"
    using assms(2) by (simp add: s tryDecrease_eq unat_sub word_le_nat_alt)
  moreover have "if decrypt (fst r) \<le> decrypt (getTotalStaked w asset)
            then unat (decrypt (getTotalStaked w' asset)) + unat (decrypt (fst r)) =
                 unat (decrypt (getTotalStaked w asset))
            else decrypt (getTotalStaked w' asset) = decrypt (getTotalStaked w asset)"
    by (simp add: t tryDecrease_eq unat_sub word_le_nat_alt)
  ultimately show ?thesis
    using eq Inr by simp
qed

text \<open>
  The token reports 3 as sent for a request of 5: the stake goes from 10 to 5, the total to 7.
\<close>

theorem unstake_sufficient_stake_witness:
  "exampleVerifier alice 5 [1] = Some 5 \<and>
   5 \<le> decrypt (getStake (reportedWorld (Trivial 3)) METH alice) \<and>
   unstakeTransfer (reportingToken (Trivial 3)) (reportedWorld (Trivial 3)) alice METH
     (Ciphertext 5 5) = Inr (Trivial 3, ()) \<and>
   (\<exists>w'. unstake (reportingToken (Trivial 3)) exampleVerifier (reportedWorld (Trivial 3))
            alice METH 5 [1] = Inr w' \<and>
      unat (decrypt (getStake w' METH alice)) + unat (5 :: uint64) = 10 \<and>
      unat (decrypt (getTotalStaked w' METH)) + 3 = 10)"
proof -
  let ?T = "reportingToken (Trivial 3)"
  let ?w = "reportedWorld (Trivial 3)"
  have v: "exampleVerifier alice 5 [1] = Some 5"
    by (simp add: exampleVerifier_def)
  have enough: "5 \<le> decrypt (getStake ?w METH alice)"
    by (simp add: eval_defs)
  have s: "unat (decrypt (getStake ?w METH alice)) = 10"
    by (simp add: eval_defs)
  have t: "unat (decrypt (getTotalStaked ?w METH)) = 10"
    by (simp add: eval_defs)
  have sent: "unstakeTransfer ?T ?w alice METH (Ciphertext 5 5) = Inr (Trivial 3, ())"
    by (simp add: unstakeTransfer_def reportingToken_def)
  have le: "(3 :: uint64) \<le> decrypt (getTotalStaked ?w METH)"
    by (simp add: eval_defs)
  show ?thesis
    using unstake_sufficient_stake [where V = exampleVerifier and h = 5 and p = "[1]",
        OF v enough, of ?T] v enough sent
    by (simp add: s t le)
qed

text \<open>
  The counterexample to C4 as stated: the stake of \<open>alice\<close> (10) covers the request (5),
  the token reports 20 as sent, and the total stays at 10 instead of decreasing by 20.
\<close>

theorem unstake_total_counterexample:
  "exampleVerifier alice 5 [1] = Some 5 \<and>
   5 \<le> decrypt (getStake (reportedWorld (Trivial 20)) METH alice) \<and>
   unstakeTransfer (reportingToken (Trivial 20)) (reportedWorld (Trivial 20)) alice METH
     (Ciphertext 5 5) = Inr (Trivial 20, ()) \<and>
   decrypt (getTotalStaked (reportedWorld (Trivial 20)) METH) = 10 \<and>
   decrypt (getTotalStaked
              (exec (reportingToken (Trivial 20)) exampleVerifier (reportedWorld (Trivial 20))
                 (UnstakeCall alice METH 5 [1])) METH) = 10 \<and>
   decrypt (getTotalStaked
              (exec (reportingToken (Trivial 20)) exampleVerifier (reportedWorld (Trivial 20))
                 (UnstakeCall alice METH 5 [1])) METH)
     \<noteq> decrypt (getTotalStaked (reportedWorld (Trivial 20)) METH) - decrypt (Trivial 20)"
  by (simp add: eval_defs)

text \<open>
  Claim C5. A \<^verbatim>\<open>stake\<close> by a caller who has not made the vault an operator on the token
  of the asset reverts with \<^verbatim>\<open>NebulaVaultOperatorMissing\<close>, whatever the ciphertext and the
  proof are (the check precedes the validation of the proof), and the state after the
  transaction is the state before it.
\<close>

theorem stake_without_operator:
  assumes "\<not> isOperator T (tokens w (getToken w asset)) sender (vaultAddress w)"
  shows "stake T V w sender asset h p = Inl NebulaVaultOperatorMissing \<and>
         transact (\<lambda>w. stake T V w sender asset h p) w = (Some NebulaVaultOperatorMissing, w) \<and>
         exec T V w (StakeCall sender asset h p) = w"
  using assms by (simp add: stake_def Let_def transact_def)

text \<open>
  \<open>bob\<close> has approved nothing and sends an invalid proof: the error is the missing operator.
\<close>

theorem stake_without_operator_witness:
  "\<not> isOperator faithfulToken (tokens freshWorld (getToken freshWorld METH)) bob
       (vaultAddress freshWorld) \<and>
   exampleVerifier bob 5 [] = None \<and>
   stake faithfulToken exampleVerifier freshWorld bob METH 5 [] = Inl NebulaVaultOperatorMissing \<and>
   exec faithfulToken exampleVerifier freshWorld (StakeCall bob METH 5 []) = freshWorld"
proof -
  have op: "\<not> isOperator faithfulToken (tokens freshWorld (getToken freshWorld METH)) bob
       (vaultAddress freshWorld)"
    by (simp add: eval_defs)
  have v: "exampleVerifier bob 5 [] = None"
    by (simp add: exampleVerifier_def)
  show ?thesis
    using stake_without_operator [OF op, of exampleVerifier 5 "[]"] op v
    by simp
qed

text \<open>
  Claim C7, as stated, fails: the validation of the proof is not the only failure of
  \<^verbatim>\<open>unstake\<close> before it writes its storage. The call to the token's
  \<^verbatim>\<open>confidentialTransfer\<close> comes before every write of a stake or a total, and a revert of
  the token reverts the transaction. Amended: \<^verbatim>\<open>unstake\<close> never fails with
  \<^verbatim>\<open>NebulaVaultOperatorMissing\<close>; it fails exactly when the proof is not valid for the
  ciphertext, with the error of the validation, or when the proof is valid and the token's
  \<^verbatim>\<open>confidentialTransfer\<close> reverts, with the error of the token; and its result does not
  depend on what the token answers to \<^verbatim>\<open>isOperator\<close>.
\<close>

theorem unstake_no_operator_check:
  "unstake T V w sender asset h p \<noteq> Inl NebulaVaultOperatorMissing \<and>
   (unstake T V w sender asset h p = Inl e) =
     (V sender h p = None \<and> e = InvalidProof \<or>
      (\<exists>v te. V sender h p = Some v \<and>
         unstakeTransfer T w sender asset (Ciphertext h v) = Inl te \<and>
         e = TokenReverted te)) \<and>
   unstake (T\<lparr>isOperator := f\<rparr>) V w sender asset h p = unstake T V w sender asset h p"
proof -
  have indep: "unstake (T\<lparr>isOperator := f\<rparr>) V w sender asset h p =
               unstake T V w sender asset h p"
    by (simp add: unstake_def Let_def split: sum.splits)
  show ?thesis
  proof (cases "V sender h p")
    case None
    then show ?thesis
      using indep by (auto simp: unstake_invalid)
  next
    case (Some v)
    show ?thesis
    proof (cases "unstakeTransfer T w sender asset (Ciphertext h v)")
      case (Inl te)
      have "unstake T V w sender asset h p = Inl (TokenReverted te)"
        using Some Inl by (rule unstake_reverts)
      then show ?thesis
        using indep Some Inl by auto
    next
      case (Inr r)
      then have "unstakeTransfer T w sender asset (Ciphertext h v) = Inr (fst r, snd r)"
        by simp
      from unstake_valid [where V = V and h = h and p = p, OF Some this]
      obtain w' where "unstake T V w sender asset h p = Inr w'"
        by blast
      then show ?thesis
        using indep Some Inr by auto
    qed
  qed
qed

text \<open>
  \<open>bob\<close> has approved nothing; his \<^verbatim>\<open>unstake\<close> with a valid proof, after the deposit of
  \<open>alice\<close>, fails neither for a missing operator nor in the validation.
\<close>

theorem unstake_no_operator_check_witness:
  "\<not> isOperator faithfulToken (tokens stakedWorld (getToken stakedWorld METH)) bob
       (vaultAddress stakedWorld) \<and>
   exampleVerifier bob 5 [1] = Some 5 \<and>
   unstake faithfulToken exampleVerifier stakedWorld bob METH 5 [1]
     \<noteq> Inl NebulaVaultOperatorMissing \<and>
   unstake faithfulToken exampleVerifier stakedWorld bob METH 5 [1] \<noteq> Inl InvalidProof \<and>
   unstake (faithfulToken\<lparr>isOperator := \<lambda>ts holder spender. True\<rparr>) exampleVerifier stakedWorld
     bob METH 5 [1] = unstake faithfulToken exampleVerifier stakedWorld bob METH 5 [1]"
proof -
  have op: "\<not> isOperator faithfulToken (tokens stakedWorld (getToken stakedWorld METH)) bob
       (vaultAddress stakedWorld)"
    by (simp add: eval_defs)
  have v: "exampleVerifier bob 5 [1] = Some 5"
    by (simp add: exampleVerifier_def)
  show ?thesis
    using unstake_no_operator_check [of faithfulToken exampleVerifier stakedWorld bob METH 5
        "[1]" InvalidProof "\<lambda>ts holder spender. True"] op v
    by simp
qed

text \<open>
  The counterexample to C7 as stated: \<open>alice\<close> asks for 7 with a valid proof from the vault
  right after deployment. The balance of the vault on the token has never been written,
  the token's \<^verbatim>\<open>confidentialTransfer\<close> reverts with \<^verbatim>\<open>ERC7984ZeroBalance\<close>, and \<^verbatim>\<open>unstake\<close>
  fails with that error, which is not the error of the validation.
\<close>

theorem unstake_no_operator_check_counterexample:
  "exampleVerifier alice 7 [1] = Some 7 \<and>
   unstakeTransfer faithfulToken freshWorld alice METH (Ciphertext 7 7) =
     Inl (ERC7984ZeroBalance vaultAt) \<and>
   unstake faithfulToken exampleVerifier freshWorld alice METH 7 [1] =
     Inl (TokenReverted (ERC7984ZeroBalance vaultAt)) \<and>
   unstake faithfulToken exampleVerifier freshWorld alice METH 7 [1] \<noteq> Inl InvalidProof"
  by (simp add: eval_defs)

text \<open>
  Claim C9. A \<^verbatim>\<open>stake\<close> or \<^verbatim>\<open>unstake\<close> call by \<open>sender\<close> on \<open>asset\<close>, reverted or not,
  leaves the stake of every other account, the stake of \<open>sender\<close> for the other asset and
  the total of the other asset as they were.
\<close>

theorem call_frame:
  assumes "call = StakeCall sender asset h p \<or> call = UnstakeCall sender asset h p"
  shows "(\<forall>c a. a \<noteq> sender \<or> c \<noteq> asset \<longrightarrow>
            getStake (exec T V w call) c a = getStake w c a) \<and>
         (\<forall>c. c \<noteq> asset \<longrightarrow> getTotalStaked (exec T V w call) c = getTotalStaked w c)"
proof -
  have st: "(\<forall>c a. a \<noteq> sender \<or> c \<noteq> asset \<longrightarrow>
            getStake (exec T V w (StakeCall sender asset h p)) c a = getStake w c a) \<and>
         (\<forall>c. c \<noteq> asset \<longrightarrow>
            getTotalStaked (exec T V w (StakeCall sender asset h p)) c = getTotalStaked w c)"
  proof (cases rule: exec_stake_cases [of T V w sender asset h p])
    case reverted
    then show ?thesis by simp
  next
    case (ran w')
    with stake_Inr [OF ran(1)] show ?thesis
      by auto
  qed
  have un: "(\<forall>c a. a \<noteq> sender \<or> c \<noteq> asset \<longrightarrow>
            getStake (exec T V w (UnstakeCall sender asset h p)) c a = getStake w c a) \<and>
         (\<forall>c. c \<noteq> asset \<longrightarrow>
            getTotalStaked (exec T V w (UnstakeCall sender asset h p)) c = getTotalStaked w c)"
  proof (cases rule: exec_unstake_cases [of T V w sender asset h p])
    case reverted
    then show ?thesis by simp
  next
    case (ran w')
    with unstake_Inr [OF ran(1)] show ?thesis
      by auto
  qed
  show ?thesis
    using assms st un by blast
qed

text \<open>
  A withdrawal of mETH by \<open>alice\<close> leaves the stake of \<open>bob\<close>, her mUSDT stake and the
  mUSDT total as they were.
\<close>

theorem call_frame_witness:
  "bob \<noteq> alice \<and> MUSDT \<noteq> METH \<and>
   getStake (exec faithfulToken exampleVerifier stakedWorld (UnstakeCall alice METH 5 [1]))
     METH bob = getStake stakedWorld METH bob \<and>
   getStake (exec faithfulToken exampleVerifier stakedWorld (UnstakeCall alice METH 5 [1]))
     MUSDT alice = getStake stakedWorld MUSDT alice \<and>
   getTotalStaked (exec faithfulToken exampleVerifier stakedWorld (UnstakeCall alice METH 5 [1]))
     MUSDT = getTotalStaked stakedWorld MUSDT"
proof -
  have ne: "bob \<noteq> alice"
    by (simp add: alice_def bob_def)
  show ?thesis
    using call_frame [of "UnstakeCall alice METH 5 [1]" alice METH 5 "[1]" faithfulToken
        exampleVerifier stakedWorld] ne
    by simp
qed

text \<open>
  Claim C8. Each of the three functions that write the storage grants as it writes:
  \<open>updateStakeStorage\<close> stores the value and grants it to the vault and to the account,
  \<open>increaseTotal\<close> and \<open>decreaseTotal\<close> grant the total they store to the vault. And in
  every state reached from the constructor by \<^verbatim>\<open>stake\<close> and \<^verbatim>\<open>unstake\<close> calls, every stake
  position and every total is either the all-zero handle (never written) or carries those
  grants.
\<close>

theorem stored_values_are_granted:
  assumes "constructor self m u ts = Inr w0"
  shows "storageGranted (run T V w0 calls) \<and>
         getStake (updateStakeStorage w asset account v) asset account = v \<and>
         granted (updateStakeStorage w asset account v) v
           (vaultAddress (updateStakeStorage w asset account v)) \<and>
         granted (updateStakeStorage w asset account v) v account \<and>
         granted (increaseTotal w asset amount)
           (getTotalStaked (increaseTotal w asset amount) asset)
           (vaultAddress (increaseTotal w asset amount)) \<and>
         granted (decreaseTotal w asset amount)
           (getTotalStaked (decreaseTotal w asset amount) asset)
           (vaultAddress (decreaseTotal w asset amount))"
proof -
  have "storageGranted (run T V w0 calls)"
    using constructor_Inr [OF assms] storageGranted_emptyVault storageGranted_run by blast
  then show ?thesis
    by (simp add: granted_def getStake_updateStakeStorage acl_updateStakeStorage
        frame_updateStakeStorage acl_increaseTotal getTotalStaked_increaseTotal
        frame_increaseTotal acl_decreaseTotal getTotalStaked_decreaseTotal frame_decreaseTotal)
qed

text \<open>
  After a deposit and a refused withdrawal the stake of \<open>alice\<close> is a written value.
\<close>

theorem stored_values_are_granted_witness:
  "constructor vaultAt methAt musdtAt (\<lambda>_. fundedToken) = Inr freshWorld \<and>
   storageGranted
     (run faithfulToken exampleVerifier freshWorld
        [StakeCall alice METH 500000 [1], UnstakeCall alice METH 600000 [1]]) \<and>
   getStake
     (run faithfulToken exampleVerifier freshWorld
        [StakeCall alice METH 500000 [1], UnstakeCall alice METH 600000 [1]]) METH alice
     \<noteq> Uninitialized"
proof -
  have c: "constructor vaultAt methAt musdtAt (\<lambda>_. fundedToken) = Inr freshWorld"
    by (simp add: constructor_def freshWorld_def methAt_def musdtAt_def)
  have n: "getStake
     (run faithfulToken exampleVerifier freshWorld
        [StakeCall alice METH 500000 [1], UnstakeCall alice METH 600000 [1]]) METH alice
     \<noteq> Uninitialized"
    by (simp add: eval_defs)
  show ?thesis
    using stored_values_are_granted [where T = faithfulToken and V = exampleVerifier
        and calls = "[StakeCall alice METH 500000 [1], UnstakeCall alice METH 600000 [1]]",
        OF c, THEN conjunct1] c n
    by simp
qed

text \<open>
  Claim C10, as stated, fails: a handle is determined by the computation that produced it,
  and the first deposit into an empty vault computes the stake of the depositor and the
  total from the same operands, so the total is the ciphertext that
  \<open>updateStakeStorage\<close> has granted to the depositor. Amended, for the grants that the
  vault issues (\<open>acl\<close>; what a token grants on the handles it creates is the token's own
  business): \<open>increaseTotal\<close> and \<open>decreaseTotal\<close> add one grant, for the vault, on the
  total they store; and in every state reached from the constructor by \<^verbatim>\<open>stake\<close> and
  \<^verbatim>\<open>unstake\<close> calls, a principal other than the vault holds a grant on the handle returned
  by \<open>getTotalStaked\<close> only if that handle is the stake stored for that principal, for
  some asset, now or after some of the calls, or if the principal is the token of one of
  the calls and the handle is the amount that the call handed to the token.
\<close>

theorem total_grants:
  assumes "constructor self m u ts = Inr w0" and "w = run T V w0 calls"
  shows "acl (increaseTotal w' asset amount) =
           insert (getTotalStaked (increaseTotal w' asset amount) asset, vaultAddress w') (acl w') \<and>
         acl (decreaseTotal w' asset amount) =
           insert (getTotalStaked (decreaseTotal w' asset amount) asset, vaultAddress w') (acl w') \<and>
         (\<forall>c who. granted w (getTotalStaked w c) who \<and> who \<noteq> vaultAddress w \<longrightarrow>
            (\<exists>n c'. n \<le> length calls \<and>
               getStake (run T V w0 (take n calls)) c' who = getTotalStaked w c) \<or>
            (\<exists>n. n < length calls \<and> who = getToken w0 (callAsset (calls ! n)) \<and>
               handedToToken V (run T V w0 (take n calls)) (calls ! n) =
                 Some (getTotalStaked w c)))"
proof -
  have w0: "acl w0 = {}"
    using constructor_Inr [OF assms(1)] by (simp add: emptyVault_def)
  have "(\<exists>n c'. n \<le> length calls \<and>
               getStake (run T V w0 (take n calls)) c' who = getTotalStaked w c) \<or>
        (\<exists>n. n < length calls \<and> who = getToken w0 (callAsset (calls ! n)) \<and>
               handedToToken V (run T V w0 (take n calls)) (calls ! n) =
                 Some (getTotalStaked w c))"
    if "granted w (getTotalStaked w c) who" and "who \<noteq> vaultAddress w" for c who
  proof -
    have "(getTotalStaked w c, who) \<in> acl (run T V w0 calls)"
      using that(1) by (simp add: granted_def assms(2))
    from grants_origin [OF this] that(2) show ?thesis
      by (simp add: w0 assms(2) frame_run)
  qed
  then show ?thesis
    by (simp add: acl_increaseTotal getTotalStaked_increaseTotal acl_decreaseTotal
        getTotalStaked_decreaseTotal)
qed

text \<open>
  \<open>bob\<close> stakes 7 mETH and \<open>alice\<close> stakes 7 mUSDT into an empty vault. The mETH stake
  of \<open>alice\<close> has never been written, and she holds a grant on the mETH total: it is the
  handle stored as her mUSDT stake.
\<close>

theorem total_grants_witness:
  "constructor vaultAt methAt musdtAt (\<lambda>_. ()) = Inr (emptyVault vaultAt methAt musdtAt (\<lambda>_. ())) \<and>
   granted
     (run (reportingToken Uninitialized) exampleVerifier
        (emptyVault vaultAt methAt musdtAt (\<lambda>_. ()))
        [StakeCall bob METH 7 [1], StakeCall alice MUSDT 7 [1]])
     (getTotalStaked
        (run (reportingToken Uninitialized) exampleVerifier
           (emptyVault vaultAt methAt musdtAt (\<lambda>_. ()))
           [StakeCall bob METH 7 [1], StakeCall alice MUSDT 7 [1]]) METH)
     alice \<and>
   alice \<noteq> vaultAt \<and>
   getStake
     (run (reportingToken Uninitialized) exampleVerifier
        (emptyVault vaultAt methAt musdtAt (\<lambda>_. ()))
        [StakeCall bob METH 7 [1], StakeCall alice MUSDT 7 [1]]) METH alice = Uninitialized \<and>
   ((\<exists>n c'. n \<le> 2 \<and>
       getStake
         (run (reportingToken Uninitialized) exampleVerifier
            (emptyVault vaultAt methAt musdtAt (\<lambda>_. ()))
            (take n [StakeCall bob METH 7 [1], StakeCall alice MUSDT 7 [1]])) c' alice =
       getTotalStaked
         (run (reportingToken Uninitialized) exampleVerifier
            (emptyVault vaultAt methAt musdtAt (\<lambda>_. ()))
            [StakeCall bob METH 7 [1], StakeCall alice MUSDT 7 [1]]) METH) \<or>
    (\<exists>n. n < 2 \<and>
       alice = getToken (emptyVault vaultAt methAt musdtAt (\<lambda>_. ()))
                 (callAsset ([StakeCall bob METH 7 [1], StakeCall alice MUSDT 7 [1]] ! n)) \<and>
       handedToToken exampleVerifier
         (run (reportingToken Uninitialized) exampleVerifier
            (emptyVault vaultAt methAt musdtAt (\<lambda>_. ()))
            (take n [StakeCall bob METH 7 [1], StakeCall alice MUSDT 7 [1]]))
         ([StakeCall bob METH 7 [1], StakeCall alice MUSDT 7 [1]] ! n) =
       Some (getTotalStaked
         (run (reportingToken Uninitialized) exampleVerifier
            (emptyVault vaultAt methAt musdtAt (\<lambda>_. ()))
            [StakeCall bob METH 7 [1], StakeCall alice MUSDT 7 [1]]) METH)))"
proof -
  let ?init = "emptyVault vaultAt methAt musdtAt (\<lambda>_. ()) :: unit world"
  let ?calls = "[StakeCall bob METH 7 [1], StakeCall alice MUSDT 7 [1]]"
  let ?w = "run (reportingToken Uninitialized) exampleVerifier ?init ?calls"
  have c: "constructor vaultAt methAt musdtAt (\<lambda>_. ()) = Inr ?init"
    by (simp add: constructor_def methAt_def musdtAt_def)
  have g: "granted ?w (getTotalStaked ?w METH) alice"
    by (simp add: eval_defs granted_def)
  have ne: "alice \<noteq> vaultAt"
    by (simp add: alice_def vaultAt_def)
  have self: "vaultAddress ?w = vaultAt"
    by (simp add: frame_run emptyVault_def)
  have none: "getStake ?w METH alice = Uninitialized"
    by (simp add: eval_defs)
  have len: "length ?calls = 2"
    by simp
  show ?thesis
    using total_grants [where T = "reportingToken Uninitialized" and V = exampleVerifier
          and calls = ?calls, OF c refl,
        THEN conjunct2, THEN conjunct2, THEN spec, THEN spec, of METH alice]
      c g ne none
    unfolding self len by blast
qed

text \<open>
  The counterexample to C10 as stated: after the first deposit, by \<open>alice\<close>, the handle
  returned by \<open>getTotalStaked\<close> is her stake handle, and she holds a grant on it.
\<close>

theorem total_grants_counterexample:
  "alice \<noteq> vaultAddress stakedWorld \<and>
   granted stakedWorld (getTotalStaked stakedWorld METH) alice \<and>
   getTotalStaked stakedWorld METH = getEncryptedStake stakedWorld alice METH"
  by (simp add: eval_defs granted_def getEncryptedStake_def)

text \<open>
  Claim C2, as stated, fails: \<^verbatim>\<open>unstake\<close> takes the validated request off the stake and
  the amount the token reports as sent off the total, so a token that reports less than it
  was asked to send leaves the total above the sum of the stakes. Amended: in every state
  reached from the constructor by \<^verbatim>\<open>stake\<close> and \<^verbatim>\<open>unstake\<close> calls in which each
  \<^verbatim>\<open>confidentialTransfer\<close> reports as sent exactly the amount it was asked to send, and no
  deposit takes the total out of the 64-bit range, the total of each asset decrypts to the
  sum over all accounts of the decrypted stakes. What \<^verbatim>\<open>confidentialTransferFrom\<close> reports
  for a deposit may differ from the request.
\<close>

theorem total_is_sum_of_stakes:
  assumes "constructor self m u ts = Inr w0" and "exactRun T V w0 calls"
  shows "unat (decrypt (getTotalStaked (run T V w0 calls) asset)) =
           (\<Sum>account\<in>UNIV.
              unat (decrypt (getEncryptedStake (run T V w0 calls) account asset)))"
proof -
  have "ledgerConsistent (run T V w0 calls)"
    using constructor_Inr [OF assms(1)] ledgerConsistent_emptyVault assms(2)
      ledgerConsistent_run by blast
  then show ?thesis
    by (simp add: ledgerConsistent_iff sumStakes_def getEncryptedStake_def)
qed

text \<open>
  A deposit of 500000, a refused withdrawal of 600000 and a withdrawal of 200000.
\<close>

theorem total_is_sum_of_stakes_witness:
  "constructor vaultAt methAt musdtAt (\<lambda>_. fundedToken) = Inr freshWorld \<and>
   exactRun faithfulToken exampleVerifier freshWorld
     [StakeCall alice METH 500000 [1], UnstakeCall alice METH 600000 [1],
      UnstakeCall alice METH 200000 [1]] \<and>
   unat (decrypt (getTotalStaked
     (run faithfulToken exampleVerifier freshWorld
        [StakeCall alice METH 500000 [1], UnstakeCall alice METH 600000 [1],
         UnstakeCall alice METH 200000 [1]]) METH)) = 300000 \<and>
   (\<Sum>account\<in>UNIV. unat (decrypt (getEncryptedStake
     (run faithfulToken exampleVerifier freshWorld
        [StakeCall alice METH 500000 [1], UnstakeCall alice METH 600000 [1],
         UnstakeCall alice METH 200000 [1]]) account METH))) = 300000"
proof -
  let ?calls = "[StakeCall alice METH 500000 [1], UnstakeCall alice METH 600000 [1],
      UnstakeCall alice METH 200000 [1]]"
  have c: "constructor vaultAt methAt musdtAt (\<lambda>_. fundedToken) = Inr freshWorld"
    by (simp add: constructor_def freshWorld_def methAt_def musdtAt_def)
  have e: "exactRun faithfulToken exampleVerifier freshWorld ?calls"
    by (simp add: eval_defs)
  have t: "unat (decrypt (getTotalStaked
             (run faithfulToken exampleVerifier freshWorld ?calls) METH)) = 300000"
    by (simp add: eval_defs)
  show ?thesis
    using total_is_sum_of_stakes [OF c e, of METH] c e t
    by simp
qed

text \<open>
  The counterexample to C2 as stated: \<open>alice\<close> stakes 10 and withdraws 10, the token
  reports 3 as sent: her stake is 0, no other account has a stake, and the total is 7.
\<close>

theorem total_is_sum_of_stakes_counterexample:
  "constructor vaultAt methAt musdtAt (\<lambda>_. ()) = Inr (emptyVault vaultAt methAt musdtAt (\<lambda>_. ())) \<and>
   decrypt (unstakeWithdrawAmount (reportedWorld (Trivial 3)) alice METH (Ciphertext 10 10)) = 10 \<and>
   unstakeTransfer (reportingToken (Trivial 3)) (reportedWorld (Trivial 3)) alice METH
     (Ciphertext 10 10) = Inr (Trivial 3, ()) \<and>
   unat (decrypt (getTotalStaked
     (run (reportingToken (Trivial 3)) exampleVerifier (emptyVault vaultAt methAt musdtAt (\<lambda>_. ()))
        [StakeCall alice METH 10 [1], UnstakeCall alice METH 10 [1]]) METH)) = 7 \<and>
   sumStakes
     (run (reportingToken (Trivial 3)) exampleVerifier (emptyVault vaultAt methAt musdtAt (\<lambda>_. ()))
        [StakeCall alice METH 10 [1], UnstakeCall alice METH 10 [1]]) METH = 0"
proof -
  let ?w = "run (reportingToken (Trivial 3)) exampleVerifier
              (emptyVault vaultAt methAt musdtAt (\<lambda>_. ()))
              [StakeCall alice METH 10 [1], UnstakeCall alice METH 10 [1]]"
  have "sumStakes ?w METH = unat (decrypt (getStake ?w METH alice))"
    unfolding sumStakes_def
    by (rule sum_single) (simp add: eval_defs)
  also have "\<dots> = 0"
    by (simp add: eval_defs)
  finally have s: "sumStakes ?w METH = 0" .
  show ?thesis
    by (simp add: s) (simp add: eval_defs constructor_def)
qed

text \<open>
  Claim C6. Over the faithful token, in every state reached from the constructor by
  \<^verbatim>\<open>stake\<close> and \<^verbatim>\<open>unstake\<close> calls, with one token for both assets or two: when an account
  that has approved the vault stakes an amount \<open>a\<close> no greater than its token balance and
  then unstakes \<open>a\<close>, the stake after the two transactions decrypts to its value before
  the first, and the balance of the account on the token is the one before the first. When
  the balance of the account has been written before, both calls succeed, and between
  them the stake is up by \<open>a\<close> and the balance down by \<open>a\<close>. (An account whose balance
  has never been written holds 0; the token reverts its deposit of 0, and the two
  transactions still leave its stake and its balance as they were.) The token is faithful:
  it moves exactly what it is asked when the payer holds it, its supply is a 64-bit
  amount, and no call is made by the vault itself.
\<close>

theorem stake_unstake_round_trip:
  assumes "constructor self m u ts = Inr w0"
    and "totalSupply (ts m) < 2 ^ 64"
    and "totalSupply (ts u) < 2 ^ 64"
    and "external self calls"
    and "w = run faithfulToken V w0 calls"
    and "sender \<noteq> self"
    and "V sender h p = Some a"
    and "V sender h' p' = Some a"
    and "isOperator faithfulToken (tokens w (getToken w asset)) sender (vaultAddress w)"
    and "unat a \<le> balanceOf (tokens w (getToken w asset)) sender"
  shows "decrypt (getStake
           (exec faithfulToken V (exec faithfulToken V w (StakeCall sender asset h p))
              (UnstakeCall sender asset h' p')) asset sender) =
           decrypt (getStake w asset sender) \<and>
         balanceOf (tokens
           (exec faithfulToken V (exec faithfulToken V w (StakeCall sender asset h p))
              (UnstakeCall sender asset h' p')) (getToken w asset)) sender =
           balanceOf (tokens w (getToken w asset)) sender \<and>
         (balances (tokens w (getToken w asset)) sender \<noteq> None \<longrightarrow>
          (\<exists>w1 w2.
             stake faithfulToken V w sender asset h p = Inr w1 \<and>
             unstake faithfulToken V w1 sender asset h' p' = Inr w2 \<and>
             decrypt (getStake w1 asset sender) = decrypt (getStake w asset sender) + a \<and>
             balanceOf (tokens w1 (getToken w asset)) sender + unat a =
               balanceOf (tokens w (getToken w asset)) sender \<and>
             decrypt (getStake w2 asset sender) = decrypt (getStake w asset sender) \<and>
             balanceOf (tokens w2 (getToken w asset)) sender =
               balanceOf (tokens w (getToken w asset)) sender))"
proof -
  have w0: "w0 = emptyVault self m u ts"
    using assms(1) by (rule constructor_Inr)
  have "custody w0"
    unfolding w0 using assms(2,3) by (rule custody_emptyVault)
  moreover have self: "vaultAddress w0 = self"
    by (simp add: w0 emptyVault_def)
  ultimately have "custody w \<and> vaultAddress w = self"
    using custody_run [of w0 calls V] assms(4,5) by simp
  then show ?thesis
    using round_trip_custody [of w sender V h p a h' p' asset] assms(6-10) by simp
qed

text \<open>
  A vault deployed with one token for both assets. \<open>alice\<close> holds 1000000 and has staked
  300000 as mUSDT; she stakes 500000 as mETH and unstakes 500000: her mETH stake is back
  at 0 and her balance at 700000.
\<close>

theorem stake_unstake_round_trip_witness:
  "constructor vaultAt methAt methAt (\<lambda>_. fundedToken) =
     Inr (emptyVault vaultAt methAt methAt (\<lambda>_. fundedToken)) \<and>
   totalSupply fundedToken < 2 ^ 64 \<and>
   external vaultAt [StakeCall alice MUSDT 300000 [1]] \<and>
   alice \<noteq> vaultAt \<and>
   exampleVerifier alice 500000 [1] = Some 500000 \<and>
   exampleVerifier alice 500000 [2] = Some 500000 \<and>
   isOperator faithfulToken
     (tokens
        (run faithfulToken exampleVerifier (emptyVault vaultAt methAt methAt (\<lambda>_. fundedToken))
           [StakeCall alice MUSDT 300000 [1]]) methAt)
     alice vaultAt \<and>
   balances
     (tokens
        (run faithfulToken exampleVerifier (emptyVault vaultAt methAt methAt (\<lambda>_. fundedToken))
           [StakeCall alice MUSDT 300000 [1]]) methAt) alice = Some 700000 \<and>
   decrypt (getStake
     (run faithfulToken exampleVerifier (emptyVault vaultAt methAt methAt (\<lambda>_. fundedToken))
        [StakeCall alice MUSDT 300000 [1]]) METH alice) = 0 \<and>
   (\<exists>w1 w2.
      stake faithfulToken exampleVerifier
        (run faithfulToken exampleVerifier (emptyVault vaultAt methAt methAt (\<lambda>_. fundedToken))
           [StakeCall alice MUSDT 300000 [1]])
        alice METH 500000 [1] = Inr w1 \<and>
      unstake faithfulToken exampleVerifier w1 alice METH 500000 [2] = Inr w2 \<and>
      decrypt (getStake w1 METH alice) = 500000 \<and>
      balanceOf (tokens w1 methAt) alice + 500000 = 700000 \<and>
      decrypt (getStake w2 METH alice) = 0 \<and>
      balanceOf (tokens w2 methAt) alice = 700000)"
proof -
  let ?init = "emptyVault vaultAt methAt methAt (\<lambda>_. fundedToken)"
  let ?w = "run faithfulToken exampleVerifier ?init [StakeCall alice MUSDT 300000 [1]]"
  have c: "constructor vaultAt methAt methAt (\<lambda>_. fundedToken) = Inr ?init"
    by (simp add: constructor_def methAt_def)
  have s: "totalSupply fundedToken < 2 ^ 64"
    by (simp add: totalSupply_fundedToken)
  have e: "external vaultAt [StakeCall alice MUSDT 300000 [1]]"
    by (simp add: alice_def vaultAt_def)
  have n: "alice \<noteq> vaultAt"
    by (simp add: alice_def vaultAt_def)
  have v1: "exampleVerifier alice 500000 [1] = Some 500000"
    by (simp add: exampleVerifier_def)
  have v2: "exampleVerifier alice 500000 [2] = Some 500000"
    by (simp add: exampleVerifier_def)
  have tk: "getToken ?w METH = methAt"
    by (simp add: getToken_run) (simp add: getToken_def emptyVault_def)
  have self: "vaultAddress ?w = vaultAt"
    by (simp add: frame_run emptyVault_def)
  have op: "isOperator faithfulToken (tokens ?w methAt) alice vaultAt"
    by (simp add: eval_defs)
  have bal: "balances (tokens ?w methAt) alice = Some 700000"
    by (simp add: eval_defs)
  then have bal': "balanceOf (tokens ?w methAt) alice = 700000"
    by (simp add: balanceOf_def)
  have le: "unat (500000 :: uint64) \<le> balanceOf (tokens ?w methAt) alice"
    by (simp add: bal')
  have old: "decrypt (getStake ?w METH alice) = 0"
    by (simp add: eval_defs)
  have written: "balances (tokens ?w (getToken ?w METH)) alice \<noteq> None"
    by (simp add: tk bal)
  from stake_unstake_round_trip [where V = exampleVerifier and sender = alice
      and h = 500000 and p = "[1]" and h' = 500000 and p' = "[2]" and a = 500000
      and asset = METH and calls = "[StakeCall alice MUSDT 300000 [1]]"
      and ts = "\<lambda>_. fundedToken" and m = methAt and u = methAt,
      OF c s s e refl n v1 v2] op le written
  have "\<exists>w1 w2.
      stake faithfulToken exampleVerifier ?w alice METH 500000 [1] = Inr w1 \<and>
      unstake faithfulToken exampleVerifier w1 alice METH 500000 [2] = Inr w2 \<and>
      decrypt (getStake w1 METH alice) = decrypt (getStake ?w METH alice) + 500000 \<and>
      balanceOf (tokens w1 (getToken ?w METH)) alice + unat (500000 :: uint64) =
        balanceOf (tokens ?w (getToken ?w METH)) alice \<and>
      decrypt (getStake w2 METH alice) = decrypt (getStake ?w METH alice) \<and>
      balanceOf (tokens w2 (getToken ?w METH)) alice =
        balanceOf (tokens ?w (getToken ?w METH)) alice"
    by (simp add: tk self)
  then have "\<exists>w1 w2.
      stake faithfulToken exampleVerifier ?w alice METH 500000 [1] = Inr w1 \<and>
      unstake faithfulToken exampleVerifier w1 alice METH 500000 [2] = Inr w2 \<and>
      decrypt (getStake w1 METH alice) = 500000 \<and>
      balanceOf (tokens w1 methAt) alice + 500000 = 700000 \<and>
      decrypt (getStake w2 METH alice) = 0 \<and>
      balanceOf (tokens w2 methAt) alice = 700000"
    by (simp add: tk old bal')
  then show ?thesis
    using c s e n v1 v2 op bal old by blast
qed

end
